theory Spec2Isabelle
  imports Main "HOL-Library.Word"
begin

section \<open>The Padloc server controller (packages/core/src/server.ts)\<close>

text \<open>
  A shallow embedding of the request controller of the Padloc server. Every controller
  method becomes a function from the server state to a result and the new state. A
  thrown \<open>Err\<close> is the left summand of the result; the state that is returned with
  it holds every write the method had made before it threw, since the storage has no
  transactions. The asynchronous calls of one request are modelled in program order.
  A method that requires a session is applied to the context of its request, which
  holds the account as \<open>_authenticate\<close> loaded it for that request; requests interleave
  at their awaits, so that account may be older than the stored one.

  Modelled are the methods that the statements of the second part are about:
  \<open>requestEmailVerification\<close>, \<open>completeEmailVerification\<close>, \<open>initAuth\<close>,
  \<open>createSession\<close>, \<open>createAccount\<close>, \<open>updateAccount\<close>, \<open>recoverAccount\<close>,
  \<open>getOrg\<close>, \<open>updateOrg\<close>, \<open>getVault\<close>, \<open>updateVault\<close>, \<open>createVault\<close>, the three
  attachment methods, and \<open>_authenticate\<close> of the base server. The remaining methods
  (\<open>updateAuth\<close>, \<open>revokeSession\<close>, \<open>getAccount\<close>, \<open>createOrg\<close>, \<open>deleteVault\<close>, the
  invite and billing methods) and the dispatcher \<open>_process\<close> are not: none of them saves
  a vault, and no statement below is about them.

  Naming: a field \<open>f\<close> of the class \<open>C\<close> is the record field \<open>c_f\<close> with a short
  prefix for the class (\<open>acc_revision\<close>, \<open>org_members\<close>, \<open>vlt_owner\<close>), because
  record fields are global names in HOL. Error messages are left out: only the code of
  an \<open>Err\<close> is ever inspected.
\<close>

subsection \<open>Errors\<close>

datatype ErrorCode =
    NOT_FOUND | BAD_REQUEST | INVALID_CREDENTIALS | INVALID_SESSION | SESSION_EXPIRED
  | INVALID_REQUEST | EMAIL_VERIFICATION_REQUIRED | EMAIL_VERIFICATION_FAILED
  | EMAIL_VERIFICATION_TRIES_EXCEEDED | ACCOUNT_EXISTS | OUTDATED_REVISION
  | INSUFFICIENT_PERMISSIONS | QUOTA_EXCEEDED | NOT_SUPPORTED | SERVER_ERROR

text \<open>
  \<open>Err c\<close> is \<open>new Err(ErrorCode.c)\<close>. \<open>TypeError\<close> is the JavaScript exception of a
  property access on \<open>undefined\<close> (the non-null assertions \<open>x!\<close> of the source are
  erased by the compiler); the dispatcher reports it as \<open>SERVER_ERROR\<close>.
\<close>

datatype error = Err ErrorCode | TypeError

subsection \<open>Data model\<close>

type_synonym bytes = "8 word list"

record DeviceInfo =
  dev_id :: string
  dev_description :: string

text \<open>
  A \<open>Session\<close> object. The list \<open>Account.sessions\<close> is declared to hold session
  summaries, but TypeScript types are structural and erased: what the list holds at run
  time is whatever object was pushed, so its elements are modelled by the same record,
  a summary being a record whose \<open>ses_key\<close> is \<open>None\<close>.
\<close>

record Session =
  ses_id :: string
  ses_account :: string
  ses_device :: "DeviceInfo option"
  ses_key :: "bytes option"
  ses_expires :: "nat option"
  ses_lastUsed :: nat
  ses_updated :: nat

record Auth =
  auth_email :: string
  auth_account :: string
  auth_verifier :: "bytes option"
  auth_keyParams :: string
  auth_trustedDevices :: "DeviceInfo list"

record AccountQuota =
  aq_orgs :: int
  aq_storage :: int

record Account =
  acc_id :: string
  acc_email :: string
  acc_name :: string
  acc_publicKey :: string
  acc_keyParams :: string
  acc_encryptionParams :: string
  acc_encryptedData :: string
  acc_revision :: string
  acc_sessions :: "Session list"
  acc_orgs :: "string list"
  acc_quota :: AccountQuota
  acc_mainVault :: string
  acc_updated :: nat

datatype OrgRole = Owner | Admin | Member | Suspended

record OrgMember =
  mem_id :: string
  mem_name :: string
  mem_email :: string
  mem_role :: OrgRole
  mem_vaults :: "(string \<times> bool) list"

record Group =
  grp_name :: string
  grp_members :: "string list"
  grp_vaults :: "(string \<times> bool) list"

record Invite =
  inv_id :: string
  inv_email :: string
  inv_org :: string
  inv_accepted :: bool
  inv_invitedBy :: "string option"

record OrgQuota =
  oq_members :: int
  oq_groups :: int
  oq_vaults :: int
  oq_storage :: int

record Org =
  org_id :: string
  org_name :: string
  org_owner :: string
  org_revision :: string
  org_publicKey :: string
  org_keyParams :: string
  org_encryptionParams :: string
  org_encryptedData :: string
  org_signingParams :: string
  org_accessors :: "string list"
  org_members :: "OrgMember list"
  org_groups :: "Group list"
  org_vaults :: "(string \<times> string) list"
  org_invites :: "Invite list"
  org_quota :: OrgQuota

text \<open>
  \<open>vlt_owner\<close> and \<open>vlt_org\<close> are optional: \<open>None\<close> is a field that is not set.
  \<open>vlt_org\<close> holds the pair \<open>{ id, name }\<close> of the organization.
\<close>

record Vault =
  vlt_id :: string
  vlt_name :: string
  vlt_owner :: "string option"
  vlt_org :: "(string \<times> string) option"
  vlt_revision :: string
  vlt_keyParams :: string
  vlt_encryptionParams :: string
  vlt_accessors :: "string list"
  vlt_encryptedData :: string
  vlt_created :: nat
  vlt_updated :: nat

record EmailVerification =
  ev_email :: string
  ev_purpose :: string
  ev_code :: string
  ev_token :: string
  ev_tries :: nat

record Attachment =
  att_id :: string
  att_vault :: string
  att_size :: nat

text \<open>
  The SRP context kept in \<open>pendingAuths\<close>: the verifier it was initialised with, the
  randomness drawn by \<open>initialize\<close>, and the client value once \<open>setA\<close> has stored it.
\<close>

record SRPServer =
  srp_v :: "bytes option"
  srp_b :: string
  srp_A :: "bytes option"

text \<open>
  Modelled from the spec: the SRP arithmetic (srp.ts is not among the sources; the spec
  consumes it as an opaque capability that "produces a public ephemeral value, accepts
  the client's public ephemeral value and proof, and yields a shared session key plus
  its own proof"). The three values are parameters of the model: functions of the
  context.
\<close>

record SRPMath =
  srpB :: "SRPServer \<Rightarrow> bytes"
  srpM1 :: "SRPServer \<Rightarrow> bytes"
  srpK :: "SRPServer \<Rightarrow> bytes"

datatype Message =
    EmailVerificationMessage EmailVerification
  | InviteCreatedMessage Invite string
  | InviteAcceptedMessage Invite string
  | MemberAddedMessage Org string

subsection \<open>Server state\<close>

text \<open>
  The storage is one map per stored class, keyed by the id that \<open>storage.get\<close> takes
  (the email address for \<open>Auth\<close> and \<open>EmailVerification\<close>). \<open>pendingAuths\<close> is the
  module-level map of the source. \<open>attachments\<close> is what the attachment storage
  holds. \<open>outbox\<close> collects what \<open>messenger.send\<close> was given. \<open>uuid()\<close> and the random code and token of an email verification read the
  entropy source \<open>entropy\<close> at the position \<open>drawn\<close>, which counts the draws.
\<close>

record ServerState =
  auths :: "string \<rightharpoonup> Auth"
  accounts :: "string \<rightharpoonup> Account"
  sessions :: "string \<rightharpoonup> Session"
  orgs :: "string \<rightharpoonup> Org"
  vaults :: "string \<rightharpoonup> Vault"
  verifications :: "string \<rightharpoonup> EmailVerification"
  attachments :: "Attachment list"
  pendingAuths :: "string \<rightharpoonup> SRPServer"
  outbox :: "(string \<times> Message) list"
  entropy :: "nat \<Rightarrow> string"
  drawn :: nat

record Context =
  ctx_session :: "Session option"
  ctx_account :: "Account option"
  ctx_device :: "DeviceInfo option"

definition uuid :: "ServerState \<Rightarrow> string \<times> ServerState" where
  "uuid st = (entropy st (drawn st), st\<lparr>drawn := Suc (drawn st)\<rparr>)"

subsection \<open>Email verification\<close>

text \<open>
  \<open>String.prototype.toLowerCase\<close> is a function of the JavaScript library, and the model
  fixes nothing about it: the methods that call it take it as their first argument
  \<open>toLowerCase\<close>, and the statements about them hold for every function on strings.
\<close>

text \<open>\<open>Controller._checkEmailVerificationCode\<close> (lines 810 to 834).\<close>

definition checkEmailVerificationCode ::
  "(string \<Rightarrow> string) \<Rightarrow> string \<Rightarrow> string \<Rightarrow> ServerState
     \<Rightarrow> (error + string) \<times> ServerState" where
  "checkEmailVerificationCode toLowerCase email code st =
     (case verifications st email of
        None \<Rightarrow> (Inl (Err EMAIL_VERIFICATION_REQUIRED), st)
      | Some ev \<Rightarrow>
          if ev_code ev \<noteq> toLowerCase code then
            (let ev' = ev\<lparr>ev_tries := ev_tries ev + 1\<rparr> in
             if ev_tries ev' > 5 then
               (Inl (Err EMAIL_VERIFICATION_TRIES_EXCEEDED),
                st\<lparr>verifications := (verifications st)(ev_email ev' := None)\<rparr>)
             else
               (Inl (Err EMAIL_VERIFICATION_FAILED),
                st\<lparr>verifications := (verifications st)(ev_email ev' \<mapsto> ev')\<rparr>))
          else (Inr (ev_token ev), st))"

text \<open>\<open>Controller.completeEmailVerification\<close> (lines 82 to 84).\<close>

definition completeEmailVerification ::
  "(string \<Rightarrow> string) \<Rightarrow> string \<Rightarrow> string \<Rightarrow> ServerState
     \<Rightarrow> (error + string) \<times> ServerState" where
  "completeEmailVerification toLowerCase email code st =
     checkEmailVerificationCode toLowerCase email code st"

text \<open>
  A client that submits the codes \<open>cs\<close> for one email address, one call after the
  other: the results of the calls, in order, and the state after the last one.
\<close>

fun submitCodes ::
  "(string \<Rightarrow> string) \<Rightarrow> string \<Rightarrow> string list \<Rightarrow> ServerState
     \<Rightarrow> (error + string) list \<times> ServerState" where
  "submitCodes toLowerCase email [] st = ([], st)"
| "submitCodes toLowerCase email (c # cs) st =
     (let (r, st1) = completeEmailVerification toLowerCase email c st;
          (rs, st2) = submitCodes toLowerCase email cs st1
      in (r # rs, st2))"

text \<open>\<open>Controller._checkEmailVerificationToken\<close> (lines 836 to 853).\<close>

definition checkEmailVerificationToken ::
  "string \<Rightarrow> string \<Rightarrow> ServerState \<Rightarrow> (error + unit) \<times> ServerState" where
  "checkEmailVerificationToken email token st =
     (case verifications st email of
        None \<Rightarrow> (Inl (Err EMAIL_VERIFICATION_FAILED), st)
      | Some ev \<Rightarrow>
          if ev_token ev \<noteq> token then (Inl (Err EMAIL_VERIFICATION_FAILED), st)
          else (Inr (), st\<lparr>verifications := (verifications st)(ev_email ev := None)\<rparr>))"

subsection \<open>Authentication\<close>

text \<open>
  Modelled from the spec: \<open>bytesToHex\<close> (encoding.ts is not among the sources): the
  hexadecimal encoding of a byte array, two digits per byte, with which the source
  "compares it byte-for-byte against the supplied proof".
\<close>

definition hexDigit :: "nat \<Rightarrow> char" where
  "hexDigit n = ''0123456789abcdef'' ! n"

definition byteToHex :: "8 word \<Rightarrow> string" where
  "byteToHex b = [hexDigit (unat b div 16), hexDigit (unat b mod 16)]"

definition bytesToHex :: "bytes \<Rightarrow> string" where
  "bytesToHex bs = concat (map byteToHex bs)"

text \<open>\<open>Controller._requireAuth\<close> (lines 800 to 808).\<close>

definition requireAuth :: "Context \<Rightarrow> error + (Account \<times> Session)" where
  "requireAuth ctx =
     (case ctx_session ctx of
        None \<Rightarrow> Inl (Err INVALID_SESSION)
      | Some session \<Rightarrow>
          (case ctx_account ctx of
             None \<Rightarrow> Inl (Err INVALID_SESSION)
           | Some account \<Rightarrow> Inr (account, session)))"

text \<open>
  \<open>auth && this.context.device && auth.trustedDevices.some(({ id }) => id ===
  this.context.device!.id)\<close> (lines 97 and 98), and the same test in
  \<open>createSession\<close> and \<open>createAccount\<close>.
\<close>

definition isTrusted :: "DeviceInfo list \<Rightarrow> DeviceInfo \<Rightarrow> bool" where
  "isTrusted devices d = list_ex (\<lambda>t. dev_id t = dev_id d) devices"

definition deviceTrusted :: "Auth option \<Rightarrow> DeviceInfo option \<Rightarrow> bool" where
  "deviceTrusted auth device =
     (case auth of
        None \<Rightarrow> False
      | Some a \<Rightarrow>
          (case device of
             None \<Rightarrow> False
           | Some d \<Rightarrow> isTrusted (auth_trustedDevices a) d))"

text \<open>
  \<open>if (this.context.device && !auth.trustedDevices.some(...))
  auth.trustedDevices.push(this.context.device)\<close> (lines 181 to 183 and 231 to 233).
\<close>

definition trustDevice :: "DeviceInfo option \<Rightarrow> Auth \<Rightarrow> Auth" where
  "trustDevice device auth =
     (case device of
        None \<Rightarrow> auth
      | Some d \<Rightarrow>
          if isTrusted (auth_trustedDevices auth) d then auth
          else auth\<lparr>auth_trustedDevices := auth_trustedDevices auth @ [d]\<rparr>)"

text \<open>
  \<open>Controller.initAuth\<close> (lines 86 to 127). \<open>verify\<close> is optional; \<open>!verify\<close> holds
  for a missing and for an empty token. The call of \<open>_checkEmailVerificationToken\<close> on
  line 104 is not awaited: the promise it returns is dropped, so its rejection never
  reaches \<open>initAuth\<close>, and only its effect on the storage (the record is deleted when
  the token matches) remains. Nothing that \<open>initAuth\<close> does afterwards reads the
  verification records, so the order in which the dropped promise settles does not
  change the result. The result is the pair of \<open>InitAuthResponse\<close>: the Auth record and
  the value \<open>B\<close>.
\<close>

definition initAuth ::
  "SRPMath \<Rightarrow> Context \<Rightarrow> string \<Rightarrow> string option \<Rightarrow> ServerState
     \<Rightarrow> (error + (Auth \<times> bytes)) \<times> ServerState" where
  "initAuth math ctx email verify st =
     (let auth = auths st email;
          trusted = deviceTrusted auth (ctx_device ctx)
      in
        if \<not> trusted \<and> (verify = None \<or> verify = Some [])
        then (Inl (Err EMAIL_VERIFICATION_REQUIRED), st)
        else
          (let st1 =
                 (if trusted then st
                  else
                    (case verify of
                       None \<Rightarrow> st
                     | Some token \<Rightarrow> snd (checkEmailVerificationToken email token st)))
           in
             (case auth of
                None \<Rightarrow> (Inl (Err NOT_FOUND), st1)
              | Some a \<Rightarrow>
                  (let (b, st2) = uuid st1;
                       srp = \<lparr>srp_v = auth_verifier a, srp_b = b, srp_A = None\<rparr>;
                       st3 = st2\<lparr>pendingAuths := (pendingAuths st2)(auth_account a \<mapsto> srp)\<rparr>
                   in (Inr (a, srpB math srp), st3)))))"

text \<open>
  Modelled from the spec: a freshly constructed \<open>Session\<close> (session.ts is not among the
  sources) has no field set, and \<open>Session.info\<close> is the session summary kept on the
  account ("summaries, not secrets"): the session without its key.
\<close>

definition new_Session :: Session where
  "new_Session =
     \<lparr>ses_id = [], ses_account = [], ses_device = None, ses_key = None,
      ses_expires = None, ses_lastUsed = 0, ses_updated = 0\<rparr>"

definition info :: "Session \<Rightarrow> Session" where
  "info s = s\<lparr>ses_key := None\<rparr>"

text \<open>
  \<open>Controller.createSession\<close> (lines 140 to 194). \<open>srp.setA(A)\<close> changes the context
  that \<open>pendingAuths\<close> holds. The account is saved with the pushed session as it is at
  that moment; \<open>delete session.key\<close> on line 191 comes after the two saves.
\<close>

definition createSession ::
  "SRPMath \<Rightarrow> Context \<Rightarrow> string \<Rightarrow> bytes \<Rightarrow> bytes \<Rightarrow> ServerState
     \<Rightarrow> (error + Session) \<times> ServerState" where
  "createSession math ctx account A M st =
     (case pendingAuths st account of
        None \<Rightarrow> (Inl (Err INVALID_CREDENTIALS), st)
      | Some srp0 \<Rightarrow>
          (let srp = srp0\<lparr>srp_A := Some A\<rparr>;
               st1 = st\<lparr>pendingAuths := (pendingAuths st)(account \<mapsto> srp)\<rparr>
           in
             if bytesToHex M \<noteq> bytesToHex (srpM1 math srp)
             then (Inl (Err INVALID_CREDENTIALS), st1)
             else
               (case accounts st1 account of
                  None \<Rightarrow> (Inl (Err NOT_FOUND), st1)
                | Some acc0 \<Rightarrow>
                    (let (sid, st2) = uuid st1;
                         session = new_Session
                           \<lparr>ses_id := sid, ses_account := account,
                            ses_device := ctx_device ctx, ses_key := Some (srpK math srp)\<rparr>;
                         acc = acc0\<lparr>acc_sessions := acc_sessions acc0 @ [session]\<rparr>;
                         st3 = st2\<lparr>sessions := (sessions st2)(ses_id session \<mapsto> session),
                                   accounts := (accounts st2)(acc_id acc \<mapsto> acc)\<rparr>;
                         st4 = st3\<lparr>pendingAuths := (pendingAuths st3)(account := None)\<rparr>
                     in
                       (case auths st4 (acc_email acc) of
                          None \<Rightarrow> (Inl (Err NOT_FOUND), st4)
                        | Some auth0 \<Rightarrow>
                            (let auth = trustDevice (ctx_device ctx) auth0;
                                 st5 = st4\<lparr>auths := (auths st4)(auth_email auth \<mapsto> auth)\<rparr>
                             in (Inr (session\<lparr>ses_key := None\<rparr>), st5)))))))"

text \<open>
  \<open>BaseServer._authenticate\<close> (lines 878 to 926). The request is reduced to what the
  method reads: the session id of \<open>req.auth\<close>, if any. The signature check
  \<open>session.verify(req)\<close> is a parameter, \<open>now\<close> is \<open>new Date()\<close>. The summary is
  stored at the index that \<open>findIndex\<close> returns, or pushed when there is none.
\<close>

fun upsertSession :: "Session \<Rightarrow> Session list \<Rightarrow> Session list" where
  "upsertSession s [] = [s]"
| "upsertSession s (x # xs) =
     (if ses_id x = ses_id s then s # xs else x # upsertSession s xs)"

definition authenticate ::
  "(Session \<Rightarrow> bool) \<Rightarrow> nat \<Rightarrow> string option \<Rightarrow> Context \<Rightarrow> ServerState
     \<Rightarrow> (error + Context) \<times> ServerState" where
  "authenticate verifySig now reqAuth ctx st =
     (case reqAuth of
        None \<Rightarrow> (Inr ctx, st)
      | Some sid \<Rightarrow>
          (case sessions st sid of
             None \<Rightarrow> (Inl (Err INVALID_SESSION), st)
           | Some session0 \<Rightarrow>
               if (case ses_expires session0 of None \<Rightarrow> False | Some e \<Rightarrow> e < now)
               then (Inl (Err SESSION_EXPIRED), st)
               else if \<not> verifySig session0 then (Inl (Err INVALID_REQUEST), st)
               else
                 (case accounts st (ses_account session0) of
                    None \<Rightarrow> (Inl (Err NOT_FOUND), st)
                  | Some account0 \<Rightarrow>
                      (let session = session0
                             \<lparr>ses_lastUsed := now, ses_device := ctx_device ctx,
                              ses_updated := now\<rparr>;
                           account = account0
                             \<lparr>acc_sessions := upsertSession (info session) (acc_sessions account0)\<rparr>;
                           st1 = st\<lparr>sessions := (sessions st)(ses_id session \<mapsto> session),
                                    accounts := (accounts st)(acc_id account \<mapsto> account)\<rparr>
                       in (Inr (ctx\<lparr>ctx_session := Some session, ctx_account := Some account\<rparr>),
                           st1)))))"

subsection \<open>Organization helpers\<close>

text \<open>
  Modelled from the spec: the lookups and role tests of \<open>Org\<close> (org.ts is not among the
  sources). A member is found by its account id, an invite by its id; the roles are
  "Owner, Admin, Member, Suspended (ordered by privilege)", so an admin test holds for
  the roles Owner and Admin and an owner test for the role Owner.
\<close>

definition getMember :: "Org \<Rightarrow> string \<Rightarrow> OrgMember option" where
  "getMember org aid = find (\<lambda>m. mem_id m = aid) (org_members org)"

definition isMember :: "Org \<Rightarrow> string \<Rightarrow> bool" where
  "isMember org aid = (case getMember org aid of None \<Rightarrow> False | Some m \<Rightarrow> True)"

definition isOwner :: "Org \<Rightarrow> string \<Rightarrow> bool" where
  "isOwner org aid =
     (case getMember org aid of None \<Rightarrow> False | Some m \<Rightarrow> mem_role m = Owner)"

definition isAdmin :: "Org \<Rightarrow> string \<Rightarrow> bool" where
  "isAdmin org aid =
     (case getMember org aid of
        None \<Rightarrow> False
      | Some m \<Rightarrow> mem_role m = Owner \<or> mem_role m = Admin)"

definition getInvite :: "Org \<Rightarrow> string \<Rightarrow> Invite option" where
  "getInvite org iid = find (\<lambda>i. inv_id i = iid) (org_invites org)"

text \<open>
  An assignment to a field of the object that \<open>getMember\<close> returned changes the first
  member with that id in the member list of the organization.
\<close>

fun updateMember :: "string \<Rightarrow> (OrgMember \<Rightarrow> OrgMember) \<Rightarrow> OrgMember list \<Rightarrow> OrgMember list" where
  "updateMember aid f [] = []"
| "updateMember aid f (m # ms) =
     (if mem_id m = aid then f m # ms else m # updateMember aid f ms)"

text \<open>
  Modelled from the spec: the read and write capabilities \<open>Org.canRead\<close> and
  \<open>Org.canWrite\<close> (org.ts is not among the sources, and the spec leaves "the exact
  capability derivation" to the organization). They are parameters of the model.
\<close>

record Access =
  canRead :: "Org \<Rightarrow> Vault \<Rightarrow> Account \<Rightarrow> bool"
  canWrite :: "Org \<Rightarrow> Vault \<Rightarrow> Account \<Rightarrow> bool"

subsection \<open>Account lifecycle\<close>

text \<open>
  Modelled from the spec: a freshly constructed \<open>Vault\<close> (vault.ts is not among the
  sources) has no field set, in particular neither \<open>owner\<close> nor \<open>org\<close>.
\<close>

definition new_Vault :: Vault where
  "new_Vault =
     \<lparr>vlt_id = [], vlt_name = [], vlt_owner = None, vlt_org = None, vlt_revision = [],
      vlt_keyParams = [], vlt_encryptionParams = [], vlt_accessors = [],
      vlt_encryptedData = [], vlt_created = 0, vlt_updated = 0\<rparr>"

text \<open>
  \<open>Controller.createAccount\<close> (lines 211 to 248). The \<open>ACCOUNT_EXISTS\<close> error is thrown
  inside the \<open>try\<close> block and rethrown by the \<open>catch\<close>, whose test lets only
  \<open>NOT_FOUND\<close> pass.
\<close>

definition createAccount ::
  "Context \<Rightarrow> nat \<Rightarrow> Account \<Rightarrow> Auth \<Rightarrow> string \<Rightarrow> ServerState
     \<Rightarrow> (error + Account) \<times> ServerState" where
  "createAccount ctx now account0 auth0 verify st =
     (case checkEmailVerificationToken (acc_email account0) verify st of
        (Inl e, st1) \<Rightarrow> (Inl e, st1)
      | (Inr u, st1) \<Rightarrow>
          (case auths st1 (auth_email auth0) of
             Some existing \<Rightarrow> (Inl (Err ACCOUNT_EXISTS), st1)
           | None \<Rightarrow>
               (let (aid, st2) = uuid st1;
                    (rev, st3) = uuid st2;
                    account1 = account0\<lparr>acc_id := aid, acc_revision := rev\<rparr>;
                    auth = trustDevice (ctx_device ctx) (auth0\<lparr>auth_account := aid\<rparr>);
                    (vid, st4) = uuid st3;
                    vault = new_Vault
                      \<lparr>vlt_id := vid, vlt_name := ''My Vault'', vlt_owner := Some aid,
                       vlt_created := now, vlt_updated := now\<rparr>;
                    account = account1\<lparr>acc_mainVault := vid\<rparr>;
                    st5 = st4\<lparr>accounts := (accounts st4)(acc_id account \<mapsto> account),
                             vaults := (vaults st4)(vlt_id vault \<mapsto> vault),
                             auths := (auths st4)(auth_email auth \<mapsto> auth)\<rparr>
                in (Inr account, st5))))"



text \<open>
  The loop of \<open>recoverAccount\<close> (lines 326 to 333): the membership of the account is
  suspended in every organization of which it is not an owner.
\<close>

fun suspendMemberships ::
  "Account \<Rightarrow> string list \<Rightarrow> ServerState \<Rightarrow> (error + unit) \<times> ServerState" where
  "suspendMemberships account [] st = (Inr (), st)"
| "suspendMemberships account (oid # oids) st =
     (case orgs st oid of
        None \<Rightarrow> (Inl (Err NOT_FOUND), st)
      | Some org \<Rightarrow>
          if isOwner org (acc_id account) then suspendMemberships account oids st
          else
            (case getMember org (acc_id account) of
               None \<Rightarrow> (Inl TypeError, st)
             | Some m \<Rightarrow>
                 (let org1 = org\<lparr>org_members :=
                        updateMember (acc_id account) (\<lambda>m. m\<lparr>mem_role := Suspended\<rparr>)
                          (org_members org)\<rparr>
                  in suspendMemberships account oids
                       (st\<lparr>orgs := (orgs st)(org_id org1 \<mapsto> org1)\<rparr>))))"

text \<open>
  \<open>account.sessions.map(s => this.storage.delete(Object.assign(new Session(), s)))\<close>
  (line 321): one delete per listed session, keyed by the id of the summary.
\<close>

definition revokeSessions :: "Session list \<Rightarrow> ServerState \<Rightarrow> ServerState" where
  "revokeSessions ss st =
     fold (\<lambda>s st'. st'\<lparr>sessions := (sessions st')(ses_id s := None)\<rparr>) ss st"

text \<open>
  \<open>Controller.recoverAccount\<close> (lines 291 to 339). \<open>upd\<close> is the account object of the
  parameters, of which the method reads the five destructured fields.
\<close>

definition recoverAccount ::
  "Context \<Rightarrow> nat \<Rightarrow> Account \<Rightarrow> Auth \<Rightarrow> string \<Rightarrow> ServerState
     \<Rightarrow> (error + Account) \<times> ServerState" where
  "recoverAccount ctx now upd auth0 verify st =
     (case checkEmailVerificationToken (auth_email auth0) verify st of
        (Inl e, st1) \<Rightarrow> (Inl e, st1)
      | (Inr u, st1) \<Rightarrow>
          (case auths st1 (auth_email auth0) of
             None \<Rightarrow> (Inl (Err NOT_FOUND), st1)
           | Some existingAuth \<Rightarrow>
               (case accounts st1 (auth_account existingAuth) of
                  None \<Rightarrow> (Inl (Err NOT_FOUND), st1)
                | Some account0 \<Rightarrow>
                    (let account = account0
                           \<lparr>acc_email := acc_email upd, acc_publicKey := acc_publicKey upd,
                            acc_keyParams := acc_keyParams upd,
                            acc_encryptionParams := acc_encryptionParams upd,
                            acc_encryptedData := acc_encryptedData upd\<rparr>;
                         mainVault = new_Vault
                           \<lparr>vlt_id := acc_mainVault account, vlt_name := ''My Vault'',
                            vlt_owner := Some (acc_id account),
                            vlt_created := now, vlt_updated := now\<rparr>;
                         auth1 = auth0\<lparr>auth_account := acc_id account\<rparr>;
                         auth = (case ctx_device ctx of
                                   None \<Rightarrow> auth1
                                 | Some d \<Rightarrow>
                                     auth1\<lparr>auth_trustedDevices := auth_trustedDevices auth1 @ [d]\<rparr>);
                         st2 = revokeSessions (acc_sessions account) st1
                     in
                       (case suspendMemberships account (acc_orgs account) st2 of
                          (Inl e, st3) \<Rightarrow> (Inl e, st3)
                        | (Inr u, st3) \<Rightarrow>
                            (Inr account,
                             st3\<lparr>accounts := (accounts st3)(acc_id account \<mapsto> account),
                                 auths := (auths st3)(auth_email auth \<mapsto> auth),
                                 vaults := (vaults st3)(vlt_id mainVault \<mapsto> mainVault)\<rparr>))))))"

subsection \<open>Organizations\<close>

text \<open>\<open>Controller.getOrg\<close> (lines 364 to 376).\<close>

definition getOrg :: "Context \<Rightarrow> string \<Rightarrow> ServerState \<Rightarrow> (error + Org) \<times> ServerState" where
  "getOrg ctx oid st =
     (case requireAuth ctx of
        Inl e \<Rightarrow> (Inl e, st)
      | Inr (account, session) \<Rightarrow>
          (case orgs st oid of
             None \<Rightarrow> (Inl (Err NOT_FOUND), st)
           | Some org \<Rightarrow>
               if org_owner org \<noteq> acc_id account \<and> \<not> isMember org (acc_id account)
               then (Inl (Err NOT_FOUND), st)
               else (Inr org, st)))"

text \<open>
  Modelled from the spec: \<open>EmailVerification.init\<close> (email-verification.ts is not among
  the sources) gives the record "a fresh code/token pair"; its counter of tries starts
  at 0. The constructor takes the email address and the purpose.
\<close>

definition new_EmailVerification ::
  "string \<Rightarrow> string \<Rightarrow> ServerState \<Rightarrow> EmailVerification \<times> ServerState" where
  "new_EmailVerification email purpose st =
     (let (code, st1) = uuid st;
          (token, st2) = uuid st1
      in (\<lparr>ev_email = email, ev_purpose = purpose, ev_code = code, ev_token = token,
           ev_tries = 0\<rparr>, st2))"

text \<open>\<open>Controller.requestEmailVerification\<close> (lines 75 to 80).\<close>

definition requestEmailVerification ::
  "string \<Rightarrow> string \<Rightarrow> ServerState \<Rightarrow> (error + unit) \<times> ServerState" where
  "requestEmailVerification email purpose st =
     (let (v, st1) = new_EmailVerification email purpose st;
          st2 = st1\<lparr>verifications := (verifications st1)(ev_email v \<mapsto> v)\<rparr>
      in (Inr (), st2\<lparr>outbox := outbox st2 @ [(email, EmailVerificationMessage v)]\<rparr>))"

text \<open>
  The loop over the added invites (lines 436 to 456). \<open>storage.get(Auth, invite.email)\<close>
  throws \<open>NOT_FOUND\<close> or returns, so the loop never fails.
\<close>

fun sendInvites :: "string \<Rightarrow> Org \<Rightarrow> Invite list \<Rightarrow> ServerState \<Rightarrow> ServerState" where
  "sendInvites clientUrl org [] st = st"
| "sendInvites clientUrl org (invite # invites) st =
     (let link = clientUrl @ ''/invite/'' @ org_id org @ ''/'' @ inv_id invite in
      case auths st (inv_email invite) of
        Some a \<Rightarrow>
          sendInvites clientUrl org invites
            (st\<lparr>outbox := outbox st @ [(inv_email invite, InviteCreatedMessage invite link)]\<rparr>)
      | None \<Rightarrow>
          (let (v, st1) = new_EmailVerification (inv_email invite) [] st;
               st2 = st1\<lparr>verifications := (verifications st1)(ev_email v \<mapsto> v)\<rparr>;
               link2 = link @ ''?verify='' @ ev_token v @ ''&email='' @ inv_email invite
           in sendInvites clientUrl org invites
                (st2\<lparr>outbox := outbox st2 @ [(inv_email invite, InviteCreatedMessage invite link2)]\<rparr>)))"

text \<open>The loop over the removed members (lines 459 to 463).\<close>

fun unlinkRemoved :: "Org \<Rightarrow> OrgMember list \<Rightarrow> ServerState \<Rightarrow> (error + unit) \<times> ServerState" where
  "unlinkRemoved org [] st = (Inr (), st)"
| "unlinkRemoved org (m # ms) st =
     (case accounts st (mem_id m) of
        None \<Rightarrow> (Inl (Err NOT_FOUND), st)
      | Some acc0 \<Rightarrow>
          (let acc = acc0\<lparr>acc_orgs := filter (\<lambda>oid. oid \<noteq> org_id org) (acc_orgs acc0)\<rparr>
           in unlinkRemoved org ms (st\<lparr>accounts := (accounts st)(acc_id acc \<mapsto> acc)\<rparr>)))"

text \<open>
  The loop over the vault entries of the stored organization (lines 466 to 473);
  \<open>newVaults\<close> is the vault list of the update.
\<close>

fun renameVaults ::
  "(string \<times> string) list \<Rightarrow> (string \<times> string) list \<Rightarrow> ServerState
     \<Rightarrow> (error + unit) \<times> ServerState" where
  "renameVaults newVaults [] st = (Inr (), st)"
| "renameVaults newVaults ((vid, name) # entries) st =
     (case find (\<lambda>v. fst v = vid) newVaults of
        None \<Rightarrow> renameVaults newVaults entries st
      | Some newVaultEntry \<Rightarrow>
          if snd newVaultEntry \<noteq> name then
            (case vaults st vid of
               None \<Rightarrow> (Inl (Err NOT_FOUND), st)
             | Some vault0 \<Rightarrow>
                 (let vault = vault0\<lparr>vlt_name := snd newVaultEntry\<rparr>
                  in renameVaults newVaults entries
                       (st\<lparr>vaults := (vaults st)(vlt_id vault \<mapsto> vault)\<rparr>)))
          else renameVaults newVaults entries st)"

text \<open>The loop over the added members (lines 504 to 516).\<close>

fun linkAdded ::
  "string \<Rightarrow> Account \<Rightarrow> Org \<Rightarrow> OrgMember list \<Rightarrow> ServerState \<Rightarrow> (error + unit) \<times> ServerState" where
  "linkAdded clientUrl account org [] st = (Inr (), st)"
| "linkAdded clientUrl account org (member # members) st =
     (case accounts st (mem_id member) of
        None \<Rightarrow> (Inl (Err NOT_FOUND), st)
      | Some acc0 \<Rightarrow>
          (let acc = acc0\<lparr>acc_orgs := acc_orgs acc0 @ [org_id org]\<rparr>;
               st1 = st\<lparr>accounts := (accounts st)(acc_id acc \<mapsto> acc)\<rparr>;
               st2 = (if mem_id member \<noteq> acc_id account
                      then st1\<lparr>outbox := outbox st1 @
                             [(mem_email member,
                               MemberAddedMessage org (clientUrl @ ''/org/'' @ org_id org))]\<rparr>
                      else st1)
           in linkAdded clientUrl account org members st2))"

text \<open>The three lists that \<open>updateOrg\<close> computes on lines 414 to 416.\<close>

definition addedMembers :: "Org \<Rightarrow> OrgMember list \<Rightarrow> OrgMember list" where
  "addedMembers org members = filter (\<lambda>m. \<not> isMember org (mem_id m)) members"

definition removedMembers :: "Org \<Rightarrow> OrgMember list \<Rightarrow> OrgMember list" where
  "removedMembers org members =
     filter (\<lambda>m0. \<not> list_ex (\<lambda>m. mem_id m0 = mem_id m) members) (org_members org)"

definition addedInvites :: "Org \<Rightarrow> Invite list \<Rightarrow> Invite list" where
  "addedInvites org invites =
     filter (\<lambda>i. case getInvite org (inv_id i) of None \<Rightarrow> True | Some i0 \<Rightarrow> False) invites"

text \<open>
  The test of lines 424 to 427: some member of the update is not a member of the stored
  organization or has another role there.
\<close>

definition roleChanged :: "Org \<Rightarrow> OrgMember list \<Rightarrow> bool" where
  "roleChanged org members =
     list_ex (\<lambda>m. case getMember org (mem_id m) of
                    None \<Rightarrow> True
                  | Some member \<Rightarrow> mem_role member \<noteq> mem_role m) members"

text \<open>The quota test of lines 496 to 499, on the organization after the assignments.\<close>

definition overQuota :: "Org \<Rightarrow> OrgMember list \<Rightarrow> Group list \<Rightarrow> bool" where
  "overQuota org members groups =
     ((oq_members (org_quota org) \<noteq> - 1 \<and> int (length members) > oq_members (org_quota org))
      \<or> (oq_groups (org_quota org) \<noteq> - 1 \<and> int (length groups) > oq_groups (org_quota org)))"

text \<open>
  The two \<open>Object.assign\<close> calls of lines 475 to 493: members, groups and vaults are
  taken from the update, and the owner-only properties as well when the caller is an
  owner. Id, owner, revision and quota of the stored organization are kept.
\<close>

definition assignOrg :: "bool \<Rightarrow> Org \<Rightarrow> Org \<Rightarrow> Org" where
  "assignOrg owner org upd =
     (let org1 = org\<lparr>org_members := org_members upd, org_groups := org_groups upd,
                     org_vaults := org_vaults upd\<rparr>
      in if owner then
           org1\<lparr>org_name := org_name upd, org_publicKey := org_publicKey upd,
                org_keyParams := org_keyParams upd,
                org_encryptionParams := org_encryptionParams upd,
                org_encryptedData := org_encryptedData upd,
                org_signingParams := org_signingParams upd,
                org_accessors := org_accessors upd,
                org_invites := org_invites upd\<rparr>
         else org1)"

text \<open>
  The second half of \<open>updateOrg\<close> (lines 435 to 523), which runs once the revision and
  the permissions have been checked: \<open>org\<close> is the stored organization, \<open>owner\<close> the
  value of \<open>isOwner\<close>, \<open>upd\<close> the organization object sent by the client.
\<close>

definition applyOrgUpdate ::
  "string \<Rightarrow> Account \<Rightarrow> bool \<Rightarrow> Org \<Rightarrow> Org \<Rightarrow> ServerState \<Rightarrow> (error + Org) \<times> ServerState" where
  "applyOrgUpdate clientUrl account owner org upd st =
     (let st1 = sendInvites clientUrl org (addedInvites org (org_invites upd)) st in
      case unlinkRemoved org (removedMembers org (org_members upd)) st1 of
        (Inl e, st2) \<Rightarrow> (Inl e, st2)
      | (Inr u, st2) \<Rightarrow>
          (case renameVaults (org_vaults upd) (org_vaults org) st2 of
             (Inl e, st3) \<Rightarrow> (Inl e, st3)
           | (Inr u, st3) \<Rightarrow>
               (let org2 = assignOrg owner org upd in
                  if overQuota org2 (org_members upd) (org_groups upd)
                  then (Inl (Err QUOTA_EXCEEDED), st3)
                  else
                    (case linkAdded clientUrl account org2
                            (addedMembers org (org_members upd)) st3 of
                       (Inl e, st4) \<Rightarrow> (Inl e, st4)
                     | (Inr u, st4) \<Rightarrow>
                         (let (rev, st5) = uuid st4;
                              org3 = org2\<lparr>org_revision := rev\<rparr>
                          in (Inr org3, st5\<lparr>orgs := (orgs st5)(org_id org3 \<mapsto> org3)\<rparr>))))))"

text \<open>
  \<open>Controller.updateOrg\<close> (lines 378 to 524). \<open>upd\<close> is the organization object sent by
  the client, \<open>clientUrl\<close> is \<open>config.clientUrl\<close>.
\<close>

definition updateOrg ::
  "string \<Rightarrow> Context \<Rightarrow> Org \<Rightarrow> ServerState \<Rightarrow> (error + Org) \<times> ServerState" where
  "updateOrg clientUrl ctx upd st =
     (case requireAuth ctx of
        Inl e \<Rightarrow> (Inl e, st)
      | Inr (account, session) \<Rightarrow>
          (case orgs st (org_id upd) of
             None \<Rightarrow> (Inl (Err NOT_FOUND), st)
           | Some org \<Rightarrow>
               if org_revision upd \<noteq> org_revision org then (Inl (Err OUTDATED_REVISION), st)
               else
                 (let owner = (org_owner org = acc_id account \<or> isOwner org (acc_id account));
                      admin = (owner \<or> isAdmin org (acc_id account))
                  in
                    if \<not> admin then (Inl (Err INSUFFICIENT_PERMISSIONS), st)
                    else if \<not> owner \<and>
                         (0 < length (addedMembers org (org_members upd))
                          \<or> 0 < length (removedMembers org (org_members upd))
                          \<or> 0 < length (addedInvites org (org_invites upd))
                          \<or> roleChanged org (org_members upd))
                    then (Inl (Err INSUFFICIENT_PERMISSIONS), st)
                    else applyOrgUpdate clientUrl account owner org upd st)))"

subsection \<open>Vaults\<close>

text \<open>
  \<open>vault.org && (await this.storage.get(Org, vault.org.id))\<close>: no organization for a
  vault whose \<open>org\<close> is not set, else the stored organization or \<open>NOT_FOUND\<close>.
\<close>

definition vaultOrg :: "Vault \<Rightarrow> ServerState \<Rightarrow> error + Org option" where
  "vaultOrg vault st =
     (case vlt_org vault of
        None \<Rightarrow> Inr None
      | Some ref \<Rightarrow>
          (case orgs st (fst ref) of
             None \<Rightarrow> Inl (Err NOT_FOUND)
           | Some org \<Rightarrow> Inr (Some org)))"

text \<open>
  The test of lines 534 and 549,
  \<open>(org && !org.canRead(vault, account)) || (!org && vault.owner !== account.id)\<close>.
\<close>

definition readDenied :: "Access \<Rightarrow> Org option \<Rightarrow> Vault \<Rightarrow> Account \<Rightarrow> bool" where
  "readDenied access org vault account =
     (case org of
        Some og \<Rightarrow> \<not> canRead access og vault account
      | None \<Rightarrow> vlt_owner vault \<noteq> Some (acc_id account))"

text \<open>The test of line 554, \<open>org && !org.canWrite(vault, account)\<close>.\<close>

definition writeDenied :: "Access \<Rightarrow> Org option \<Rightarrow> Vault \<Rightarrow> Account \<Rightarrow> bool" where
  "writeDenied access org vault account =
     (case org of
        Some og \<Rightarrow> \<not> canWrite access og vault account
      | None \<Rightarrow> False)"

text \<open>\<open>Controller.getVault\<close> (lines 526 to 539).\<close>

definition getVault ::
  "Access \<Rightarrow> Context \<Rightarrow> string \<Rightarrow> ServerState \<Rightarrow> (error + Vault) \<times> ServerState" where
  "getVault access ctx vid st =
     (case requireAuth ctx of
        Inl e \<Rightarrow> (Inl e, st)
      | Inr (account, session) \<Rightarrow>
          (case vaults st vid of
             None \<Rightarrow> (Inl (Err NOT_FOUND), st)
           | Some vault \<Rightarrow>
               (case vaultOrg vault st of
                  Inl e \<Rightarrow> (Inl e, st)
                | Inr org \<Rightarrow>
                    if readDenied access org vault account then (Inl (Err NOT_FOUND), st)
                    else (Inr vault, st))))"

text \<open>
  \<open>Controller.updateVault\<close> (lines 541 to 575). \<open>upd\<close> is the vault object sent by the
  client, of which the method reads the six destructured fields.
\<close>

definition updateVault ::
  "Access \<Rightarrow> Context \<Rightarrow> nat \<Rightarrow> Vault \<Rightarrow> ServerState \<Rightarrow> (error + Vault) \<times> ServerState" where
  "updateVault access ctx now upd st =
     (case requireAuth ctx of
        Inl e \<Rightarrow> (Inl e, st)
      | Inr (account, session) \<Rightarrow>
          (case vaults st (vlt_id upd) of
             None \<Rightarrow> (Inl (Err NOT_FOUND), st)
           | Some vault0 \<Rightarrow>
               (case vaultOrg vault0 st of
                  Inl e \<Rightarrow> (Inl e, st)
                | Inr org \<Rightarrow>
                    if readDenied access org vault0 account then (Inl (Err NOT_FOUND), st)
                    else if writeDenied access org vault0 account
                    then (Inl (Err INSUFFICIENT_PERMISSIONS), st)
                    else if vlt_revision upd \<noteq> vlt_revision vault0
                    then (Inl (Err OUTDATED_REVISION), st)
                    else
                      (let (rev, st1) = uuid st;
                           vault = vault0
                             \<lparr>vlt_revision := rev, vlt_keyParams := vlt_keyParams upd,
                              vlt_encryptionParams := vlt_encryptionParams upd,
                              vlt_accessors := vlt_accessors upd,
                              vlt_encryptedData := vlt_encryptedData upd,
                              vlt_updated := now\<rparr>
                       in (Inr vault, st1\<lparr>vaults := (vaults st1)(vlt_id vault \<mapsto> vault)\<rparr>)))))"

text \<open>
  \<open>Controller.createVault\<close> (lines 577 to 612). \<open>vault0\<close> is the vault object sent by
  the client. The three ids are drawn before the quota is tested.
\<close>

definition createVault ::
  "Context \<Rightarrow> nat \<Rightarrow> Vault \<Rightarrow> ServerState \<Rightarrow> (error + Vault) \<times> ServerState" where
  "createVault ctx now vault0 st =
     (case requireAuth ctx of
        Inl e \<Rightarrow> (Inl e, st)
      | Inr (account, session) \<Rightarrow>
          (case vlt_org vault0 of
             None \<Rightarrow> (Inl (Err BAD_REQUEST), st)
           | Some ref \<Rightarrow>
               (case orgs st (fst ref) of
                  None \<Rightarrow> (Inl (Err NOT_FOUND), st)
                | Some org0 \<Rightarrow>
                    if \<not> isAdmin org0 (acc_id account)
                    then (Inl (Err INSUFFICIENT_PERMISSIONS), st)
                    else
                      (let (vid, st1) = uuid st;
                           (rev, st2) = uuid st1;
                           vault = vault0
                             \<lparr>vlt_id := vid, vlt_owner := Some (acc_id account),
                              vlt_created := now, vlt_updated := now, vlt_revision := rev\<rparr>;
                           (orev, st3) = uuid st2;
                           org = org0
                             \<lparr>org_vaults := org_vaults org0 @ [(vlt_id vault, vlt_name vault)],
                              org_revision := orev\<rparr>
                       in
                         if oq_vaults (org_quota org) \<noteq> - 1
                            \<and> int (length (org_vaults org)) > oq_vaults (org_quota org)
                         then (Inl (Err QUOTA_EXCEEDED), st3)
                         else
                           (Inr vault,
                            st3\<lparr>vaults := (vaults st3)(vlt_id vault \<mapsto> vault),
                                orgs := (orgs st3)(org_id org \<mapsto> org)\<rparr>)))))"

subsection \<open>Attachments\<close>

text \<open>
  Modelled from the spec: the attachment storage (attachment.ts is not among the
  sources), "binary blob storage scoped to a vault, with per-scope usage accounting":
  the usage of a vault is the sum of the sizes of its attachments, \<open>get\<close> fails with
  \<open>NOT_FOUND\<close> for an attachment that is not stored.
\<close>

definition getUsage :: "ServerState \<Rightarrow> string \<Rightarrow> nat" where
  "getUsage st vid = sum_list (map att_size (filter (\<lambda>a. att_vault a = vid) (attachments st)))"

definition putAttachment :: "Attachment \<Rightarrow> ServerState \<Rightarrow> ServerState" where
  "putAttachment att st =
     st\<lparr>attachments :=
          filter (\<lambda>a. \<not> (att_vault a = att_vault att \<and> att_id a = att_id att)) (attachments st)
          @ [att]\<rparr>"

text \<open>
  The permission test of the three attachment methods (lines 713, 745 and 762):
  \<open>org ? org.canWrite(vault, account) : vault.owner === account.id\<close>, with \<open>canRead\<close>
  in \<open>getAttachment\<close>.
\<close>

definition allowed ::
  "(Org \<Rightarrow> Vault \<Rightarrow> Account \<Rightarrow> bool) \<Rightarrow> Org option \<Rightarrow> Vault \<Rightarrow> Account \<Rightarrow> bool" where
  "allowed can org vault account =
     (case org of
        Some og \<Rightarrow> can og vault account
      | None \<Rightarrow> vlt_owner vault = Some (acc_id account))"

text \<open>
  \<open>Controller.createAttachment\<close> (lines 707 to 737). The sizes are whole numbers of
  bytes, and the model compares them with \<open>quota.storage * 1e9\<close> as unbounded integers.
  The code computes in doubles, which are exact for whole numbers below \<open>2^53\<close>; the
  model is the code for usages and quotas below that bound, and no statement of the
  second part depends on the quota test.
\<close>

definition createAttachment ::
  "Access \<Rightarrow> Context \<Rightarrow> Attachment \<Rightarrow> ServerState \<Rightarrow> (error + Attachment) \<times> ServerState" where
  "createAttachment access ctx att0 st =
     (case requireAuth ctx of
        Inl e \<Rightarrow> (Inl e, st)
      | Inr (account, session) \<Rightarrow>
          (case vaults st (att_vault att0) of
             None \<Rightarrow> (Inl (Err NOT_FOUND), st)
           | Some vault \<Rightarrow>
               (case vaultOrg vault st of
                  Inl e \<Rightarrow> (Inl e, st)
                | Inr org \<Rightarrow>
                    if \<not> allowed (canWrite access) org vault account
                    then (Inl (Err INSUFFICIENT_PERMISSIONS), st)
                    else
                      (let (aid, st1) = uuid st;
                           att = att0\<lparr>att_id := aid\<rparr>;
                           currentUsage =
                             (case org of
                                Some og \<Rightarrow> sum_list (map (\<lambda>v. getUsage st1 (fst v)) (org_vaults og))
                              | None \<Rightarrow> getUsage st1 (vlt_id vault));
                           storage =
                             (case org of
                                Some og \<Rightarrow> oq_storage (org_quota og)
                              | None \<Rightarrow> aq_storage (acc_quota account))
                       in
                         if storage \<noteq> - 1
                            \<and> int (currentUsage + att_size att) > storage * 1000000000
                         then (Inl (Err QUOTA_EXCEEDED), st1)
                         else (Inr att, putAttachment att st1)))))"

text \<open>\<open>Controller.getAttachment\<close> (lines 739 to 754).\<close>

definition getAttachment ::
  "Access \<Rightarrow> Context \<Rightarrow> string \<Rightarrow> string \<Rightarrow> ServerState \<Rightarrow> (error + Attachment) \<times> ServerState" where
  "getAttachment access ctx aid vaultId st =
     (case requireAuth ctx of
        Inl e \<Rightarrow> (Inl e, st)
      | Inr (account, session) \<Rightarrow>
          (case vaults st vaultId of
             None \<Rightarrow> (Inl (Err NOT_FOUND), st)
           | Some vault \<Rightarrow>
               (case vaultOrg vault st of
                  Inl e \<Rightarrow> (Inl e, st)
                | Inr org \<Rightarrow>
                    if \<not> allowed (canRead access) org vault account
                    then (Inl (Err INSUFFICIENT_PERMISSIONS), st)
                    else
                      (case find (\<lambda>a. att_vault a = vaultId \<and> att_id a = aid) (attachments st) of
                         None \<Rightarrow> (Inl (Err NOT_FOUND), st)
                       | Some att \<Rightarrow> (Inr att, st)))))"

text \<open>\<open>Controller.deleteAttachment\<close> (lines 756 to 769).\<close>

definition deleteAttachment ::
  "Access \<Rightarrow> Context \<Rightarrow> string \<Rightarrow> string \<Rightarrow> ServerState \<Rightarrow> (error + unit) \<times> ServerState" where
  "deleteAttachment access ctx vaultId aid st =
     (case requireAuth ctx of
        Inl e \<Rightarrow> (Inl e, st)
      | Inr (account, session) \<Rightarrow>
          (case vaults st vaultId of
             None \<Rightarrow> (Inl (Err NOT_FOUND), st)
           | Some vault \<Rightarrow>
               (case vaultOrg vault st of
                  Inl e \<Rightarrow> (Inl e, st)
                | Inr org \<Rightarrow>
                    if \<not> allowed (canWrite access) org vault account
                    then (Inl (Err INSUFFICIENT_PERMISSIONS), st)
                    else
                      (Inr (),
                       st\<lparr>attachments :=
                            filter (\<lambda>a. \<not> (att_vault a = vaultId \<and> att_id a = aid))
                              (attachments st)\<rparr>))))"

subsection \<open>Terms and properties of the statements\<close>

text \<open>
  The session object that \<open>createSession\<close> builds on lines 164 to 168 in the state
  \<open>st\<close>, for the pending exchange \<open>srp\<close> and the client value \<open>A\<close>; it names the
  object in the statements about \<open>createSession\<close>.
\<close>

definition builtSession ::
  "SRPMath \<Rightarrow> Context \<Rightarrow> string \<Rightarrow> bytes \<Rightarrow> SRPServer \<Rightarrow> ServerState \<Rightarrow> Session" where
  "builtSession math ctx account A srp st =
     new_Session
       \<lparr>ses_id := entropy st (drawn st), ses_account := account,
        ses_device := ctx_device ctx, ses_key := Some (srpK math (srp\<lparr>srp_A := Some A\<rparr>))\<rparr>"



text \<open>
  The membership diff in the words of the spec: against the stored organization \<open>org\<close>,
  the update \<open>upd\<close> adds a member, removes a member, adds an invite, or gives a member a
  role that differs from the stored one.
\<close>

definition membershipChanged :: "Org \<Rightarrow> Org \<Rightarrow> bool" where
  "membershipChanged org upd =
     ((\<exists>m \<in> set (org_members upd). mem_id m \<notin> mem_id ` set (org_members org))
      \<or> (\<exists>m0 \<in> set (org_members org). mem_id m0 \<notin> mem_id ` set (org_members upd))
      \<or> (\<exists>i \<in> set (org_invites upd). inv_id i \<notin> inv_id ` set (org_invites org))
      \<or> (\<exists>m \<in> set (org_members upd). \<exists>m0. getMember org (mem_id m) = Some m0
            \<and> mem_role m0 \<noteq> mem_role m))"

text \<open>Every stored vault has its owner set.\<close>

definition ownedVaults :: "ServerState \<Rightarrow> bool" where
  "ownedVaults st = (\<forall>vid v. vaults st vid = Some v \<longrightarrow> vlt_owner v \<noteq> None)"

text \<open>
  States whose accounts and vaults are stored under their own ids, as \<open>storage.save\<close>
  stores them.
\<close>

definition keyedAccounts :: "ServerState \<Rightarrow> bool" where
  "keyedAccounts st = (\<forall>aid a. accounts st aid = Some a \<longrightarrow> acc_id a = aid)"

definition keyedVaults :: "ServerState \<Rightarrow> bool" where
  "keyedVaults st = (\<forall>vid v. vaults st vid = Some v \<longrightarrow> vlt_id v = vid)"



subsection \<open>Concrete states\<close>

text \<open>
  The states at which the theorems below are instantiated. The entropy source of the
  examples gives a different string at every position.
\<close>

definition exampleEntropy :: "nat \<Rightarrow> string" where
  "exampleEntropy n = replicate (Suc n) CHR ''u''"

definition emptyState :: ServerState where
  "emptyState =
     \<lparr>auths = Map.empty, accounts = Map.empty, sessions = Map.empty, orgs = Map.empty,
      vaults = Map.empty, verifications = Map.empty, attachments = [],
      pendingAuths = Map.empty, outbox = [], entropy = exampleEntropy, drawn = 0\<rparr>"

definition bobVerification :: EmailVerification where
  "bobVerification =
     \<lparr>ev_email = ''bob@example.com'', ev_purpose = ''signup'', ev_code = ''c0de42'',
      ev_token = ''t0ken'', ev_tries = 0\<rparr>"

text \<open>
  The codes of the examples are strings of ASCII characters; on those,
  \<open>String.prototype.toLowerCase\<close> replaces each of the letters \<open>A\<close> to \<open>Z\<close> by its small
  letter and keeps every other character.
\<close>

definition asciiLowerCase :: "string \<Rightarrow> string" where
  "asciiLowerCase s =
     map (\<lambda>c. case map_of (zip ''ABCDEFGHIJKLMNOPQRSTUVWXYZ'' ''abcdefghijklmnopqrstuvwxyz'') c of
               Some l \<Rightarrow> l
             | None \<Rightarrow> c) s"

definition verifyingState :: ServerState where
  "verifyingState =
     emptyState\<lparr>verifications := [''bob@example.com'' \<mapsto> bobVerification]\<rparr>"

definition exampleMath :: SRPMath where
  "exampleMath =
     \<lparr>srpB = (\<lambda>s. case srp_v s of None \<Rightarrow> [] | Some v \<Rightarrow> v),
      srpM1 = (\<lambda>s. case srp_A s of None \<Rightarrow> [] | Some a \<Rightarrow> rev a),
      srpK = (\<lambda>s. [42])\<rparr>"

definition laptop :: DeviceInfo where
  "laptop = \<lparr>dev_id = ''dev-1'', dev_description = ''laptop''\<rparr>"

definition anonymous :: Context where
  "anonymous = \<lparr>ctx_session = None, ctx_account = None, ctx_device = Some laptop\<rparr>"

definition aliceAuth :: Auth where
  "aliceAuth =
     \<lparr>auth_email = ''alice@example.com'', auth_account = ''acc-alice'',
      auth_verifier = Some [1, 2, 3], auth_keyParams = ''kp'', auth_trustedDevices = []\<rparr>"

definition aliceAccount :: Account where
  "aliceAccount =
     \<lparr>acc_id = ''acc-alice'', acc_email = ''alice@example.com'', acc_name = ''Alice'',
      acc_publicKey = ''pk'', acc_keyParams = ''kp'', acc_encryptionParams = ''ep'',
      acc_encryptedData = ''data'', acc_revision = ''rev-1'', acc_sessions = [],
      acc_orgs = [], acc_quota = \<lparr>aq_orgs = 3, aq_storage = 1\<rparr>,
      acc_mainVault = ''vault-alice'', acc_updated = 0\<rparr>"

definition alicePending :: SRPServer where
  "alicePending = \<lparr>srp_v = Some [1, 2, 3], srp_b = ''b'', srp_A = None\<rparr>"

text \<open>Alice has started a login: her SRP exchange is pending.\<close>

definition loginState :: ServerState where
  "loginState =
     emptyState
       \<lparr>auths := [''alice@example.com'' \<mapsto> aliceAuth],
        accounts := [''acc-alice'' \<mapsto> aliceAccount],
        pendingAuths := [''acc-alice'' \<mapsto> alicePending]\<rparr>"

text \<open>
  The same, after Alice has changed the email address of her account with
  \<open>updateAccount\<close>: her Auth record is still stored under the old address.
\<close>

definition movedState :: ServerState where
  "movedState =
     loginState
       \<lparr>accounts := [''acc-alice'' \<mapsto> aliceAccount\<lparr>acc_email := ''alice@new.example''\<rparr>]\<rparr>"

text \<open>
  An organization: Alice is its owner, Bob an admin, Carol a plain member; Dave has an
  account and is no member. It has one shared vault, which Bob created, and Alice has
  her private vault.
\<close>

definition aliceOwner :: Account where
  "aliceOwner = aliceAccount\<lparr>acc_orgs := [''org-acme'']\<rparr>"

definition bobAccount :: Account where
  "bobAccount =
     aliceAccount
       \<lparr>acc_id := ''acc-bob'', acc_email := ''bob@example.com'', acc_name := ''Bob'',
        acc_orgs := [''org-acme''], acc_mainVault := ''vault-bob''\<rparr>"

definition carolAccount :: Account where
  "carolAccount =
     aliceAccount
       \<lparr>acc_id := ''acc-carol'', acc_email := ''carol@example.com'', acc_name := ''Carol'',
        acc_orgs := [''org-acme''], acc_mainVault := ''vault-carol''\<rparr>"

definition daveAccount :: Account where
  "daveAccount =
     aliceAccount
       \<lparr>acc_id := ''acc-dave'', acc_email := ''dave@example.com'', acc_name := ''Dave'',
        acc_mainVault := ''vault-dave''\<rparr>"

definition memberOf :: "Account \<Rightarrow> OrgRole \<Rightarrow> OrgMember" where
  "memberOf account role =
     \<lparr>mem_id = acc_id account, mem_name = acc_name account, mem_email = acc_email account,
      mem_role = role, mem_vaults = []\<rparr>"

definition acme :: Org where
  "acme =
     \<lparr>org_id = ''org-acme'', org_name = ''Acme'', org_owner = ''acc-alice'',
      org_revision = ''orev-1'', org_publicKey = ''opk'', org_keyParams = ''okp'',
      org_encryptionParams = ''oep'', org_encryptedData = ''odata'',
      org_signingParams = ''osp'', org_accessors = [],
      org_members = [memberOf aliceOwner Owner, memberOf bobAccount Admin,
                     memberOf carolAccount Member],
      org_groups = [], org_vaults = [(''vault-acme'', ''Shared'')], org_invites = [],
      org_quota = \<lparr>oq_members = 3, oq_groups = 1, oq_vaults = 2, oq_storage = 1\<rparr>\<rparr>"

definition aliceVault :: Vault where
  "aliceVault =
     new_Vault
       \<lparr>vlt_id := ''vault-alice'', vlt_name := ''My Vault'', vlt_owner := Some ''acc-alice'',
        vlt_revision := ''vrev-1''\<rparr>"

definition acmeVault :: Vault where
  "acmeVault =
     new_Vault
       \<lparr>vlt_id := ''vault-acme'', vlt_name := ''Shared'', vlt_owner := Some ''acc-bob'',
        vlt_org := Some (''org-acme'', ''Acme''), vlt_revision := ''vrev-2''\<rparr>"

definition orgState :: ServerState where
  "orgState =
     emptyState
       \<lparr>accounts := [''acc-alice'' \<mapsto> aliceOwner, ''acc-bob'' \<mapsto> bobAccount,
                    ''acc-carol'' \<mapsto> carolAccount, ''acc-dave'' \<mapsto> daveAccount],
        orgs := [''org-acme'' \<mapsto> acme],
        vaults := [''vault-alice'' \<mapsto> aliceVault, ''vault-acme'' \<mapsto> acmeVault]\<rparr>"

text \<open>The context of a request that \<open>_authenticate\<close> has accepted for an account.\<close>

definition signedIn :: "Account \<Rightarrow> Context" where
  "signedIn account =
     \<lparr>ctx_session = Some (new_Session\<lparr>ses_id := ''ses-1'', ses_account := acc_id account\<rparr>),
      ctx_account = Some account, ctx_device = Some laptop\<rparr>"

text \<open>
  An instance of the capabilities: every member that is not suspended reads every vault
  of the organization, its admins write them.
\<close>

definition exampleAccess :: Access where
  "exampleAccess =
     \<lparr>canRead = (\<lambda>org vault account.
         case getMember org (acc_id account) of
           None \<Rightarrow> False
         | Some m \<Rightarrow> mem_role m = Owner \<or> mem_role m = Admin \<or> mem_role m = Member),
      canWrite = (\<lambda>org vault account. isAdmin org (acc_id account))\<rparr>"

text \<open>The shared vault that Bob asks \<open>createVault\<close> to create for the organization.\<close>

definition plansVault :: Vault where
  "plansVault = new_Vault\<lparr>vlt_name := ''Plans'', vlt_org := Some (''org-acme'', ''Acme'')\<rparr>"

text \<open>The account and the Auth record that Bob sends to \<open>createAccount\<close>.\<close>

definition bobSignup :: Account where
  "bobSignup = bobAccount\<lparr>acc_id := [], acc_revision := [], acc_orgs := [], acc_mainVault := []\<rparr>"

definition bobAuth :: Auth where
  "bobAuth =
     \<lparr>auth_email = ''bob@example.com'', auth_account = [], auth_verifier = Some [9],
      auth_keyParams = ''kp'', auth_trustedDevices = []\<rparr>"

text \<open>Bob, an admin, makes Carol an admin; Carol, a plain member, renames the organization.\<close>

definition promoteCarol :: Org where
  "promoteCarol =
     acme\<lparr>org_members := [memberOf aliceOwner Owner, memberOf bobAccount Admin,
                           memberOf carolAccount Admin]\<rparr>"

definition renameAcme :: Org where
  "renameAcme = acme\<lparr>org_name := ''Acme Inc''\<rparr>"

text \<open>
  Alice, the owner, sends an update that removes Carol, invites Erin, who has no account,
  renames the shared vault, and has two groups where the quota allows one.
\<close>

definition erinInvite :: Invite where
  "erinInvite =
     \<lparr>inv_id = ''inv-1'', inv_email = ''erin@example.com'', inv_org = ''org-acme'',
      inv_accepted = False, inv_invitedBy = Some ''alice@example.com''\<rparr>"

definition shrinkAcme :: Org where
  "shrinkAcme =
     acme\<lparr>org_members := [memberOf aliceOwner Owner, memberOf bobAccount Admin],
          org_groups := [\<lparr>grp_name = ''dev'', grp_members = [], grp_vaults = []\<rparr>,
                         \<lparr>grp_name = ''ops'', grp_members = [], grp_vaults = []\<rparr>],
          org_vaults := [(''vault-acme'', ''Renamed'')],
          org_invites := [erinInvite]\<rparr>"















section \<open>Verification\<close>

subsection \<open>Email verification codes\<close>

text \<open>
  A verification request stores a record for the address under the address, with no try
  counted: the fresh record of the statements below.
\<close>

lemma requestEmailVerification_fresh:
  "\<exists>ev. verifications (snd (requestEmailVerification email purpose st)) email = Some ev
     \<and> ev_email ev = email \<and> ev_tries ev = 0"
  by (simp add: requestEmailVerification_def new_EmailVerification_def uuid_def Let_def)

lemma cev_none:
  "verifications st email = None \<Longrightarrow>
   completeEmailVerification toLowerCase email code st = (Inl (Err EMAIL_VERIFICATION_REQUIRED), st)"
  by (simp add: completeEmailVerification_def checkEmailVerificationCode_def)

lemma cev_wrong_within:
  "verifications st email = Some ev \<Longrightarrow> ev_email ev = email \<Longrightarrow>
   ev_code ev \<noteq> toLowerCase code \<Longrightarrow> ev_tries ev < 5 \<Longrightarrow>
   completeEmailVerification toLowerCase email code st =
     (Inl (Err EMAIL_VERIFICATION_FAILED),
      st\<lparr>verifications := (verifications st)(email \<mapsto> ev\<lparr>ev_tries := Suc (ev_tries ev)\<rparr>)\<rparr>)"
  by (simp add: completeEmailVerification_def checkEmailVerificationCode_def Let_def)

lemma cev_wrong_exceeded:
  "verifications st email = Some ev \<Longrightarrow> ev_email ev = email \<Longrightarrow>
   ev_code ev \<noteq> toLowerCase code \<Longrightarrow> 5 \<le> ev_tries ev \<Longrightarrow>
   completeEmailVerification toLowerCase email code st =
     (Inl (Err EMAIL_VERIFICATION_TRIES_EXCEEDED),
      st\<lparr>verifications := (verifications st)(email := None)\<rparr>)"
  by (simp add: completeEmailVerification_def checkEmailVerificationCode_def Let_def)

lemma cev_correct:
  "verifications st email = Some ev \<Longrightarrow> ev_code ev = toLowerCase code \<Longrightarrow>
   completeEmailVerification toLowerCase email code st = (Inr (ev_token ev), st)"
  by (simp add: completeEmailVerification_def checkEmailVerificationCode_def)

lemma submitCodes_append:
  "submitCodes toLowerCase email (xs @ ys) st =
     (let (rs, st1) = submitCodes toLowerCase email xs st;
          (rs', st2) = submitCodes toLowerCase email ys st1
      in (rs @ rs', st2))"
  by (induction xs arbitrary: st) (simp_all add: Let_def split: prod.splits)

lemma submitCodes_wrong:
  "verifications st email = Some ev \<Longrightarrow> ev_email ev = email \<Longrightarrow>
   list_all (\<lambda>c. ev_code ev \<noteq> toLowerCase c) cs \<Longrightarrow> ev_tries ev + length cs \<le> 5 \<Longrightarrow>
   submitCodes toLowerCase email cs st =
     (replicate (length cs) (Inl (Err EMAIL_VERIFICATION_FAILED)),
      st\<lparr>verifications := (verifications st)(email \<mapsto> ev\<lparr>ev_tries := ev_tries ev + length cs\<rparr>)\<rparr>)"
proof (induction cs arbitrary: st ev)
  case Nil
  then show ?case by (simp add: map_upd_triv)
next
  case (Cons c cs)
  let ?ev1 = "ev\<lparr>ev_tries := Suc (ev_tries ev)\<rparr>"
  let ?st1 = "st\<lparr>verifications := (verifications st)(email \<mapsto> ?ev1)\<rparr>"
  have step: "completeEmailVerification toLowerCase email c st = (Inl (Err EMAIL_VERIFICATION_FAILED), ?st1)"
    using Cons.prems by (intro cev_wrong_within) auto
  have rest: "submitCodes toLowerCase email cs ?st1 =
     (replicate (length cs) (Inl (Err EMAIL_VERIFICATION_FAILED)),
      ?st1\<lparr>verifications := (verifications ?st1)(email \<mapsto> ?ev1\<lparr>ev_tries := ev_tries ?ev1 + length cs\<rparr>)\<rparr>)"
    using Cons.prems by (intro Cons.IH) auto
  show ?case
    by (simp add: step rest) (simp add: fun_upd_def)
qed

lemma cev_after_exceeded:
  "verifications st email = Some ev \<Longrightarrow> ev_email ev = email \<Longrightarrow>
   ev_code ev \<noteq> toLowerCase code \<Longrightarrow> 5 \<le> ev_tries ev \<Longrightarrow>
   completeEmailVerification toLowerCase email later
       (snd (completeEmailVerification toLowerCase email code st))
     = (Inl (Err EMAIL_VERIFICATION_REQUIRED),
        st\<lparr>verifications := (verifications st)(email := None)\<rparr>)"
  by (simp add: cev_wrong_exceeded cev_none)

text \<open>
  Claim C8, as amended. Take a verification record stored for an email address, and
  call a code right when \<open>toLowerCase\<close> of it is the stored code, wrong otherwise. A
  call of \<open>completeEmailVerification\<close> with a right code returns the stored token and
  leaves the state as it is; the record stays stored. A wrong code while fewer than 5
  tries are counted stores the record with one more try and fails
  \<open>EMAIL_VERIFICATION_FAILED\<close>; a wrong code once 5 tries are counted deletes the
  record and fails \<open>EMAIL_VERIFICATION_TRIES_EXCEEDED\<close>, and any call after that one,
  whatever its code, fails \<open>EMAIL_VERIFICATION_REQUIRED\<close>. So 5 wrong codes in a row
  on a fresh record leave it stored with 5 tries, and it is the sixth wrong code that
  destroys it. With no record stored, every call, whatever its code, fails
  \<open>EMAIL_VERIFICATION_REQUIRED\<close>.
\<close>

theorem completeEmailVerification_tries:
  "(verifications st email = None \<longrightarrow>
      completeEmailVerification toLowerCase email code st
        = (Inl (Err EMAIL_VERIFICATION_REQUIRED), st))
   \<and> (\<forall>ev. verifications st email = Some ev \<and> ev_email ev = email \<longrightarrow>
        (ev_code ev = toLowerCase code \<longrightarrow>
           completeEmailVerification toLowerCase email code st = (Inr (ev_token ev), st))
      \<and> (ev_code ev \<noteq> toLowerCase code \<and> ev_tries ev < 5 \<longrightarrow>
           completeEmailVerification toLowerCase email code st =
             (Inl (Err EMAIL_VERIFICATION_FAILED),
              st\<lparr>verifications := (verifications st)(email \<mapsto> ev\<lparr>ev_tries := Suc (ev_tries ev)\<rparr>)\<rparr>))
      \<and> (ev_code ev \<noteq> toLowerCase code \<and> 5 \<le> ev_tries ev \<longrightarrow>
           completeEmailVerification toLowerCase email code st =
             (Inl (Err EMAIL_VERIFICATION_TRIES_EXCEEDED),
              st\<lparr>verifications := (verifications st)(email := None)\<rparr>)
         \<and> completeEmailVerification toLowerCase email later
               (snd (completeEmailVerification toLowerCase email code st)) =
             (Inl (Err EMAIL_VERIFICATION_REQUIRED),
              st\<lparr>verifications := (verifications st)(email := None)\<rparr>))
      \<and> (ev_tries ev = 0 \<and> list_all (\<lambda>c. ev_code ev \<noteq> toLowerCase c) cs \<and> length cs = 5 \<longrightarrow>
           submitCodes toLowerCase email cs st =
             (replicate 5 (Inl (Err EMAIL_VERIFICATION_FAILED)),
              st\<lparr>verifications := (verifications st)(email \<mapsto> ev\<lparr>ev_tries := 5\<rparr>)\<rparr>)
         \<and> (ev_code ev \<noteq> toLowerCase code \<longrightarrow>
              submitCodes toLowerCase email (cs @ [code]) st =
                (replicate 5 (Inl (Err EMAIL_VERIFICATION_FAILED))
                   @ [Inl (Err EMAIL_VERIFICATION_TRIES_EXCEEDED)],
                 st\<lparr>verifications := (verifications st)(email := None)\<rparr>))))"
proof (intro conjI impI allI; (elim conjE)?)
  assume "verifications st email = None"
  then show "completeEmailVerification toLowerCase email code st
        = (Inl (Err EMAIL_VERIFICATION_REQUIRED), st)"
    by (rule cev_none)
next
  fix ev
  assume "verifications st email = Some ev" "ev_code ev = toLowerCase code"
  then show "completeEmailVerification toLowerCase email code st = (Inr (ev_token ev), st)"
    by (rule cev_correct)
next
  fix ev
  assume "verifications st email = Some ev" "ev_email ev = email"
    "ev_code ev \<noteq> toLowerCase code" "ev_tries ev < 5"
  then show "completeEmailVerification toLowerCase email code st =
             (Inl (Err EMAIL_VERIFICATION_FAILED),
              st\<lparr>verifications := (verifications st)(email \<mapsto> ev\<lparr>ev_tries := Suc (ev_tries ev)\<rparr>)\<rparr>)"
    by (rule cev_wrong_within)
next
  fix ev
  assume "verifications st email = Some ev" "ev_email ev = email"
    "ev_code ev \<noteq> toLowerCase code" "5 \<le> ev_tries ev"
  then show "completeEmailVerification toLowerCase email code st =
             (Inl (Err EMAIL_VERIFICATION_TRIES_EXCEEDED),
              st\<lparr>verifications := (verifications st)(email := None)\<rparr>)"
    by (rule cev_wrong_exceeded)
next
  fix ev
  assume "verifications st email = Some ev" "ev_email ev = email"
    "ev_code ev \<noteq> toLowerCase code" "5 \<le> ev_tries ev"
  then show "completeEmailVerification toLowerCase email later
               (snd (completeEmailVerification toLowerCase email code st)) =
             (Inl (Err EMAIL_VERIFICATION_REQUIRED),
              st\<lparr>verifications := (verifications st)(email := None)\<rparr>)"
    by (rule cev_after_exceeded)
next
  fix ev
  assume a: "verifications st email = Some ev" "ev_email ev = email" "ev_tries ev = 0"
    "list_all (\<lambda>c. ev_code ev \<noteq> toLowerCase c) cs" "length cs = 5"
  then show five: "submitCodes toLowerCase email cs st =
             (replicate 5 (Inl (Err EMAIL_VERIFICATION_FAILED)),
              st\<lparr>verifications := (verifications st)(email \<mapsto> ev\<lparr>ev_tries := 5\<rparr>)\<rparr>)"
    using submitCodes_wrong [of st email ev toLowerCase cs] by simp
  assume w: "ev_code ev \<noteq> toLowerCase code"
  let ?st5 = "st\<lparr>verifications := (verifications st)(email \<mapsto> ev\<lparr>ev_tries := 5\<rparr>)\<rparr>"
  have "completeEmailVerification toLowerCase email code ?st5 =
          (Inl (Err EMAIL_VERIFICATION_TRIES_EXCEEDED),
           ?st5\<lparr>verifications := (verifications ?st5)(email := None)\<rparr>)"
    using a w cev_wrong_exceeded [of ?st5 email "ev\<lparr>ev_tries := 5\<rparr>" toLowerCase code] by simp
  then show "submitCodes toLowerCase email (cs @ [code]) st =
                (replicate 5 (Inl (Err EMAIL_VERIFICATION_FAILED))
                   @ [Inl (Err EMAIL_VERIFICATION_TRIES_EXCEEDED)],
                 st\<lparr>verifications := (verifications st)(email := None)\<rparr>)"
    by (simp add: submitCodes_append five)
qed


text \<open>
  The theorem at the record of Bob: a right code, one wrong code, six wrong codes and
  the right code after them.
\<close>

theorem completeEmailVerification_tries_witness:
  "completeEmailVerification asciiLowerCase ''bob@example.com'' ''C0DE42'' verifyingState
     = (Inr ''t0ken'', verifyingState)
   \<and> completeEmailVerification asciiLowerCase ''bob@example.com'' ''guess'' verifyingState
     = (Inl (Err EMAIL_VERIFICATION_FAILED),
        verifyingState\<lparr>verifications :=
          (verifications verifyingState)
            (''bob@example.com'' \<mapsto> bobVerification\<lparr>ev_tries := Suc 0\<rparr>)\<rparr>)
   \<and> submitCodes asciiLowerCase ''bob@example.com''
         [''a1'', ''a2'', ''a3'', ''a4'', ''a5'', ''guess''] verifyingState
     = (replicate 5 (Inl (Err EMAIL_VERIFICATION_FAILED))
          @ [Inl (Err EMAIL_VERIFICATION_TRIES_EXCEEDED)],
        verifyingState\<lparr>verifications :=
          (verifications verifyingState)(''bob@example.com'' := None)\<rparr>)
   \<and> completeEmailVerification asciiLowerCase ''bob@example.com'' ''c0de42''
         (verifyingState\<lparr>verifications :=
            (verifications verifyingState)(''bob@example.com'' := None)\<rparr>)
     = (Inl (Err EMAIL_VERIFICATION_REQUIRED),
        verifyingState\<lparr>verifications :=
          (verifications verifyingState)(''bob@example.com'' := None)\<rparr>)"
  using completeEmailVerification_tries
          [of verifyingState "''bob@example.com''" asciiLowerCase "''C0DE42''" "''x''" "[]"]
        completeEmailVerification_tries
          [of verifyingState "''bob@example.com''" asciiLowerCase "''guess''" "''x''"
              "[''a1'', ''a2'', ''a3'', ''a4'', ''a5'']"]
        completeEmailVerification_tries
          [of "verifyingState\<lparr>verifications :=
                 (verifications verifyingState)(''bob@example.com'' := None)\<rparr>"
              "''bob@example.com''" asciiLowerCase "''c0de42''" "''x''" "[]"]
  by (simp add: verifyingState_def emptyState_def bobVerification_def asciiLowerCase_def)

text \<open>
  The claim as the spec states it fails at the record of Bob: after 5 wrong codes the
  right code still returns the token; after 6 wrong codes the right code fails
  \<open>EMAIL_VERIFICATION_REQUIRED\<close>, not \<open>EMAIL_VERIFICATION_TRIES_EXCEEDED\<close>; and the
  right code on the fresh record does not delete it.
\<close>

theorem completeEmailVerification_counterexample:
  "fst (completeEmailVerification asciiLowerCase ''bob@example.com'' ''c0de42''
          (snd (submitCodes asciiLowerCase ''bob@example.com''
                  [''a1'', ''a2'', ''a3'', ''a4'', ''a5''] verifyingState)))
     = Inr ''t0ken''
   \<and> fst (completeEmailVerification asciiLowerCase ''bob@example.com'' ''c0de42''
          (snd (submitCodes asciiLowerCase ''bob@example.com''
                  [''a1'', ''a2'', ''a3'', ''a4'', ''a5'', ''a6''] verifyingState)))
     = Inl (Err EMAIL_VERIFICATION_REQUIRED)
   \<and> verifications
         (snd (completeEmailVerification asciiLowerCase ''bob@example.com'' ''c0de42''
                 verifyingState))
         ''bob@example.com''
     = Some bobVerification"
  by (simp add: completeEmailVerification_def checkEmailVerificationCode_def
        verifyingState_def emptyState_def bobVerification_def asciiLowerCase_def)

subsection \<open>Login: the verification token of initAuth\<close>

lemma checkToken_fails_state:
  "fst (checkEmailVerificationToken email token st) = Inl e \<Longrightarrow>
   snd (checkEmailVerificationToken email token st) = st"
  by (auto simp: checkEmailVerificationToken_def split: option.splits if_splits)

text \<open>
  Claim C1 (a defect of the code). The claim asks that \<open>initAuth\<close> from an untrusted
  device with a token that fails the verification fails with
  \<open>EMAIL_VERIFICATION_FAILED\<close>, and that \<open>NOT_FOUND\<close> is raised only after a successful
  check. What the code does instead, because the check on line 104 is not awaited: for
  every non-empty token whose check fails, \<open>initAuth\<close> raises \<open>NOT_FOUND\<close> when there
  is no Auth record for the email address, and succeeds, starting an SRP exchange, when
  there is one.
\<close>

theorem initAuth_ignores_failed_verification:
  "fst (checkEmailVerificationToken email token st) = Inl (Err EMAIL_VERIFICATION_FAILED)
   \<and> token \<noteq> [] \<and> \<not> deviceTrusted (auths st email) (ctx_device ctx)
   \<longrightarrow> (auths st email = None \<longrightarrow>
          initAuth math ctx email (Some token) st = (Inl (Err NOT_FOUND), st))
     \<and> (\<forall>a. auths st email = Some a \<longrightarrow>
          fst (initAuth math ctx email (Some token) st)
            = Inr (a, srpB math \<lparr>srp_v = auth_verifier a, srp_b = entropy st (drawn st),
                                 srp_A = None\<rparr>))"
proof (intro impI conjI allI; elim conjE)
  assume f: "fst (checkEmailVerificationToken email token st) = Inl (Err EMAIL_VERIFICATION_FAILED)"
    and t: "token \<noteq> []" and d: "\<not> deviceTrusted (auths st email) (ctx_device ctx)"
  have s: "snd (checkEmailVerificationToken email token st) = st"
    using f by (rule checkToken_fails_state)
  {
    assume "auths st email = None"
    then show "initAuth math ctx email (Some token) st = (Inl (Err NOT_FOUND), st)"
      using t d s by (simp add: initAuth_def Let_def)
  }
  {
    fix a
    assume "auths st email = Some a"
    then show "fst (initAuth math ctx email (Some token) st)
            = Inr (a, srpB math \<lparr>srp_v = auth_verifier a, srp_b = entropy st (drawn st),
                                 srp_A = None\<rparr>)"
      using t d s by (simp add: initAuth_def Let_def uuid_def)
  }
qed

text \<open>
  The failing inputs: a bogus token for an address without Auth record on the empty
  storage, and a bogus token for the address of Alice.
\<close>

theorem initAuth_ignores_failed_verification_witness:
  "initAuth exampleMath anonymous ''mallory@example.com'' (Some ''bogus'') emptyState
     = (Inl (Err NOT_FOUND), emptyState)
   \<and> fst (initAuth exampleMath anonymous ''alice@example.com'' (Some ''bogus'') loginState)
     = Inr (aliceAuth, [1, 2, 3])"
  using initAuth_ignores_failed_verification
          [of "''mallory@example.com''" "''bogus''" emptyState anonymous exampleMath]
        initAuth_ignores_failed_verification
          [of "''alice@example.com''" "''bogus''" loginState anonymous exampleMath]
  by (simp add: checkEmailVerificationToken_def emptyState_def loginState_def anonymous_def
        deviceTrusted_def isTrusted_def aliceAuth_def exampleMath_def laptop_def)

subsection \<open>Login: createSession\<close>

lemma hexDigit_inj: "i < 16 \<Longrightarrow> j < 16 \<Longrightarrow> hexDigit i = hexDigit j \<Longrightarrow> i = j"
proof -
  assume a: "i < 16" "j < 16" "hexDigit i = hexDigit j"
  have d: "distinct ''0123456789abcdef''" by simp
  have l: "length ''0123456789abcdef'' = 16" by simp
  show ?thesis
    using a d l unfolding hexDigit_def by (metis nth_eq_iff_index_eq)
qed

lemma byteToHex_inj: "byteToHex a = byteToHex b \<Longrightarrow> a = b"
proof -
  assume h: "byteToHex a = byteToHex b"
  have "unat a < 2 ^ 8" and "unat b < 2 ^ 8"
    using unsigned_less [of a, where ?'a = nat] unsigned_less [of b, where ?'a = nat] by simp_all
  then have la: "unat a div 16 < 16" and lb: "unat b div 16 < 16"
    by simp_all
  have "hexDigit (unat a div 16) = hexDigit (unat b div 16)"
    and "hexDigit (unat a mod 16) = hexDigit (unat b mod 16)"
    using h by (simp_all add: byteToHex_def)
  then have "unat a div 16 = unat b div 16" and "unat a mod 16 = unat b mod 16"
    using la lb by (auto intro: hexDigit_inj)
  then have "unat a = unat b"
    by (metis div_mult_mod_eq)
  then show ?thesis by (simp add: word_unat_eq_iff)
qed

lemma bytesToHex_inj: "bytesToHex xs = bytesToHex ys \<Longrightarrow> xs = ys"
proof (induction xs arbitrary: ys)
  case Nil
  then show ?case by (cases ys) (simp_all add: bytesToHex_def byteToHex_def)
next
  case (Cons x xs)
  show ?case
  proof (cases ys)
    case Nil
    with Cons.prems show ?thesis by (simp add: bytesToHex_def byteToHex_def)
  next
    case (Cons y ys')
    with Cons.prems have e: "byteToHex x @ bytesToHex xs = byteToHex y @ bytesToHex ys'"
      by (simp add: bytesToHex_def)
    have "length (byteToHex x) = length (byteToHex y)" by (simp add: byteToHex_def)
    with e have "byteToHex x = byteToHex y" and "bytesToHex xs = bytesToHex ys'" by auto
    then show ?thesis using Cons Cons.IH byteToHex_inj by blast
  qed
qed

lemma bytesToHex_eq_iff: "bytesToHex xs = bytesToHex ys \<longleftrightarrow> xs = ys"
  using bytesToHex_inj by blast

lemma createSession_no_pending:
  "pendingAuths st account = None \<Longrightarrow>
   createSession math ctx account A M st = (Inl (Err INVALID_CREDENTIALS), st)"
  by (simp add: createSession_def)

lemma createSession_mismatch:
  "pendingAuths st account = Some srp \<Longrightarrow> M \<noteq> srpM1 math (srp\<lparr>srp_A := Some A\<rparr>) \<Longrightarrow>
   createSession math ctx account A M st =
     (Inl (Err INVALID_CREDENTIALS),
      st\<lparr>pendingAuths := (pendingAuths st)(account \<mapsto> srp\<lparr>srp_A := Some A\<rparr>)\<rparr>)"
  by (simp add: createSession_def Let_def bytesToHex_eq_iff)

lemma createSession_no_account:
  "pendingAuths st account = Some srp \<Longrightarrow> M = srpM1 math (srp\<lparr>srp_A := Some A\<rparr>) \<Longrightarrow>
   accounts st account = None \<Longrightarrow>
   fst (createSession math ctx account A M st) = Inl (Err NOT_FOUND)"
  by (simp add: createSession_def Let_def)

lemma createSession_no_auth:
  "pendingAuths st account = Some srp \<Longrightarrow> M = srpM1 math (srp\<lparr>srp_A := Some A\<rparr>) \<Longrightarrow>
   accounts st account = Some acc \<Longrightarrow> auths st (acc_email acc) = None \<Longrightarrow>
   fst (createSession math ctx account A M st) = Inl (Err NOT_FOUND)"
  by (simp add: createSession_def Let_def uuid_def)

lemma createSession_success:
  "pendingAuths st account = Some srp \<Longrightarrow> M = srpM1 math (srp\<lparr>srp_A := Some A\<rparr>) \<Longrightarrow>
   accounts st account = Some acc \<Longrightarrow> auths st (acc_email acc) = Some auth \<Longrightarrow>
   createSession math ctx account A M st =
     (Inr ((builtSession math ctx account A srp st)\<lparr>ses_key := None\<rparr>),
      st\<lparr>pendingAuths := (pendingAuths st)(account := None),
         drawn := Suc (drawn st),
         sessions := (sessions st)(entropy st (drawn st) \<mapsto> builtSession math ctx account A srp st),
         accounts := (accounts st)(acc_id acc \<mapsto>
            acc\<lparr>acc_sessions := acc_sessions acc @ [builtSession math ctx account A srp st]\<rparr>),
         auths := (auths st)(auth_email (trustDevice (ctx_device ctx) auth) \<mapsto>
            trustDevice (ctx_device ctx) auth)\<rparr>)"
  by (simp add: createSession_def Let_def uuid_def builtSession_def new_Session_def)


lemma createSession_replay:
  "pendingAuths st account = Some srp \<Longrightarrow> M = srpM1 math (srp\<lparr>srp_A := Some A\<rparr>) \<Longrightarrow>
   accounts st account = Some acc \<Longrightarrow> auths st (acc_email acc) = Some auth \<Longrightarrow>
   createSession math ctx' account A' M' (snd (createSession math ctx account A M st))
     = (Inl (Err INVALID_CREDENTIALS), snd (createSession math ctx account A M st))"
  by (rule createSession_no_pending) (simp add: createSession_success)

lemma createSession_Inr:
  assumes "fst (createSession math ctx account A M st) = Inr s"
  shows "\<exists>srp acc auth. pendingAuths st account = Some srp
           \<and> M = srpM1 math (srp\<lparr>srp_A := Some A\<rparr>)
           \<and> accounts st account = Some acc \<and> auths st (acc_email acc) = Some auth"
proof (cases "pendingAuths st account")
  case None
  with assms show ?thesis by (simp add: createSession_no_pending)
next
  case (Some srp)
  show ?thesis
  proof (cases "M = srpM1 math (srp\<lparr>srp_A := Some A\<rparr>)")
    case False
    with Some assms show ?thesis by (simp add: createSession_mismatch)
  next
    case True
    show ?thesis
    proof (cases "accounts st account")
      case None
      with Some True assms show ?thesis using createSession_no_account [of st account srp M math A ctx] by simp
    next
      case (Some acc)
      note acc = Some
      show ?thesis
      proof (cases "auths st (acc_email acc)")
        case None
        with acc \<open>pendingAuths st account = Some srp\<close> True assms show ?thesis
          using createSession_no_auth [of st account srp M math A acc ctx] by simp
      next
        case (Some auth)
        with acc \<open>pendingAuths st account = Some srp\<close> True show ?thesis by blast
      qed
    qed
  qed
qed

text \<open>
  Claim C2, as amended. \<open>createSession\<close> succeeds if and only if a pending SRP
  exchange is stored for the account id, the supplied proof \<open>M\<close> is the proof \<open>M1\<close> of
  that exchange after \<open>setA(A)\<close>, the Account record of that id is stored and an Auth
  record is stored under the email address of that account. Without a pending exchange
  the call fails \<open>INVALID_CREDENTIALS\<close> and changes nothing; with a pending exchange
  and another proof it fails \<open>INVALID_CREDENTIALS\<close>; with a pending exchange and
  the right proof but without the Account record, or without an Auth record under its
  address, it fails \<open>NOT_FOUND\<close>. A successful call returns a
  session without key and deletes the pending exchange, so every later call for the
  account, whatever it sends, fails \<open>INVALID_CREDENTIALS\<close>.
\<close>

theorem createSession_succeeds_iff:
  "((\<exists>s. fst (createSession math ctx account A M st) = Inr s) \<longleftrightarrow>
      (\<exists>srp acc auth. pendingAuths st account = Some srp
         \<and> M = srpM1 math (srp\<lparr>srp_A := Some A\<rparr>)
         \<and> accounts st account = Some acc \<and> auths st (acc_email acc) = Some auth))
   \<and> (pendingAuths st account = None \<longrightarrow>
        createSession math ctx account A M st = (Inl (Err INVALID_CREDENTIALS), st))
   \<and> (\<forall>srp. pendingAuths st account = Some srp \<and> M \<noteq> srpM1 math (srp\<lparr>srp_A := Some A\<rparr>) \<longrightarrow>
        fst (createSession math ctx account A M st) = Inl (Err INVALID_CREDENTIALS))
   \<and> (\<forall>srp. pendingAuths st account = Some srp \<and> M = srpM1 math (srp\<lparr>srp_A := Some A\<rparr>)
          \<and> (accounts st account = None
               \<or> (\<exists>acc. accounts st account = Some acc \<and> auths st (acc_email acc) = None)) \<longrightarrow>
        fst (createSession math ctx account A M st) = Inl (Err NOT_FOUND))
   \<and> (\<forall>s. fst (createSession math ctx account A M st) = Inr s \<longrightarrow>
        ses_key s = None
        \<and> pendingAuths (snd (createSession math ctx account A M st)) account = None
        \<and> (\<forall>ctx' A' M'.
              fst (createSession math ctx' account A' M' (snd (createSession math ctx account A M st)))
                = Inl (Err INVALID_CREDENTIALS)))"
proof (intro conjI allI impI)
  show "(\<exists>s. fst (createSession math ctx account A M st) = Inr s) \<longleftrightarrow>
      (\<exists>srp acc auth. pendingAuths st account = Some srp
         \<and> M = srpM1 math (srp\<lparr>srp_A := Some A\<rparr>)
         \<and> accounts st account = Some acc \<and> auths st (acc_email acc) = Some auth)"
    using createSession_Inr createSession_success by (metis fst_conv)
next
  assume "pendingAuths st account = None"
  then show "createSession math ctx account A M st = (Inl (Err INVALID_CREDENTIALS), st)"
    by (rule createSession_no_pending)
next
  fix srp
  assume "pendingAuths st account = Some srp \<and> M \<noteq> srpM1 math (srp\<lparr>srp_A := Some A\<rparr>)"
  then show "fst (createSession math ctx account A M st) = Inl (Err INVALID_CREDENTIALS)"
    by (simp add: createSession_mismatch)
next
  fix srp
  assume "pendingAuths st account = Some srp \<and> M = srpM1 math (srp\<lparr>srp_A := Some A\<rparr>)
          \<and> (accounts st account = None
               \<or> (\<exists>acc. accounts st account = Some acc \<and> auths st (acc_email acc) = None))"
  then show "fst (createSession math ctx account A M st) = Inl (Err NOT_FOUND)"
    by (auto simp: createSession_no_account createSession_no_auth)
next
  fix s
  assume s: "fst (createSession math ctx account A M st) = Inr s"
  then obtain srp acc auth where h: "pendingAuths st account = Some srp"
      "M = srpM1 math (srp\<lparr>srp_A := Some A\<rparr>)"
      "accounts st account = Some acc" "auths st (acc_email acc) = Some auth"
    using createSession_Inr by blast
  show "ses_key s = None"
    using s createSession_success [OF h, of ctx] by auto
  show "pendingAuths (snd (createSession math ctx account A M st)) account = None"
    using createSession_success [OF h, of ctx] by simp
  fix ctx' A' M'
  show "fst (createSession math ctx' account A' M' (snd (createSession math ctx account A M st)))
                = Inl (Err INVALID_CREDENTIALS)"
    using createSession_replay [OF h] by simp
qed


text \<open>
  The theorem at the pending login of Alice: the right proof, a wrong proof, and an
  account without pending exchange.
\<close>

theorem createSession_succeeds_iff_witness:
  "(\<exists>s. fst (createSession exampleMath anonymous ''acc-alice'' [4, 5] [5, 4] loginState) = Inr s)
   \<and> fst (createSession exampleMath anonymous ''acc-alice'' [4, 5] [0] loginState)
       = Inl (Err INVALID_CREDENTIALS)
   \<and> createSession exampleMath anonymous ''acc-bob'' [4, 5] [5, 4] loginState
       = (Inl (Err INVALID_CREDENTIALS), loginState)"
  using createSession_succeeds_iff
          [of exampleMath anonymous "''acc-alice''" "[4, 5]" "[5, 4]" loginState]
        createSession_succeeds_iff
          [of exampleMath anonymous "''acc-alice''" "[4, 5]" "[0]" loginState]
        createSession_succeeds_iff
          [of exampleMath anonymous "''acc-bob''" "[4, 5]" "[5, 4]" loginState]
  by (simp add: loginState_def emptyState_def exampleMath_def alicePending_def
        aliceAccount_def aliceAuth_def)

text \<open>
  The claim as the spec states it fails once Alice has changed the email address of her
  account: the exchange is pending and the proof is right, yet the call fails
  \<open>NOT_FOUND\<close>, since no Auth record is stored under the new address.
\<close>

theorem createSession_counterexample:
  "pendingAuths movedState ''acc-alice'' = Some alicePending
   \<and> [5, 4] = srpM1 exampleMath (alicePending\<lparr>srp_A := Some [4, 5]\<rparr>)
   \<and> fst (createSession exampleMath anonymous ''acc-alice'' [4, 5] [5, 4] movedState)
       = Inl (Err NOT_FOUND)"
  by (simp add: createSession_def Let_def uuid_def movedState_def loginState_def emptyState_def
        exampleMath_def alicePending_def aliceAccount_def aliceAuth_def)


subsection \<open>The session list of a stored account\<close>

text \<open>
  Claim C3 (a defect of the code). The claim asks that no element of a stored
  \<open>sessions\<close> list carries a session key. What the code does instead: a successful
  \<open>createSession\<close> stores the account with the session object itself pushed onto its
  list, and that object holds the negotiated key \<open>K\<close> when the account is saved.
\<close>

theorem createSession_persists_key:
  "fst (createSession math ctx account A M st) = Inr s
   \<and> accounts st account = Some acc0 \<and> acc_id acc0 = account
   \<longrightarrow> (\<exists>srp. pendingAuths st account = Some srp
         \<and> accounts (snd (createSession math ctx account A M st)) account
             = Some (acc0\<lparr>acc_sessions :=
                  acc_sessions acc0 @ [builtSession math ctx account A srp st]\<rparr>)
         \<and> ses_key (builtSession math ctx account A srp st)
             = Some (srpK math (srp\<lparr>srp_A := Some A\<rparr>)))"
proof (intro impI, elim conjE)
  assume s: "fst (createSession math ctx account A M st) = Inr s"
    and a: "accounts st account = Some acc0" "acc_id acc0 = account"
  from s obtain srp acc auth where h: "pendingAuths st account = Some srp"
      "M = srpM1 math (srp\<lparr>srp_A := Some A\<rparr>)"
      "accounts st account = Some acc" "auths st (acc_email acc) = Some auth"
    using createSession_Inr by blast
  with a have e: "acc = acc0" by simp
  have "accounts (snd (createSession math ctx account A M st)) account
          = Some (acc0\<lparr>acc_sessions := acc_sessions acc0 @ [builtSession math ctx account A srp st]\<rparr>)"
    using createSession_success [OF h, of ctx] a e by simp
  moreover have "ses_key (builtSession math ctx account A srp st)
             = Some (srpK math (srp\<lparr>srp_A := Some A\<rparr>))"
    by (simp add: builtSession_def new_Session_def)
  ultimately show "\<exists>srp. pendingAuths st account = Some srp
         \<and> accounts (snd (createSession math ctx account A M st)) account
             = Some (acc0\<lparr>acc_sessions :=
                  acc_sessions acc0 @ [builtSession math ctx account A srp st]\<rparr>)
         \<and> ses_key (builtSession math ctx account A srp st)
             = Some (srpK math (srp\<lparr>srp_A := Some A\<rparr>))"
    using h(1) by blast
qed

text \<open>The failing input: the login of Alice with the right proof.\<close>

theorem createSession_persists_key_witness:
  "fst (createSession exampleMath anonymous ''acc-alice'' [4, 5] [5, 4] loginState)
     = Inr \<lparr>ses_id = ''u'', ses_account = ''acc-alice'', ses_device = Some laptop,
            ses_key = None, ses_expires = None, ses_lastUsed = 0, ses_updated = 0\<rparr>
   \<and> accounts (snd (createSession exampleMath anonymous ''acc-alice'' [4, 5] [5, 4] loginState))
       ''acc-alice''
     = Some (aliceAccount\<lparr>acc_sessions :=
         [\<lparr>ses_id = ''u'', ses_account = ''acc-alice'', ses_device = Some laptop,
           ses_key = Some [42], ses_expires = None, ses_lastUsed = 0, ses_updated = 0\<rparr>]\<rparr>)"
  using createSession_persists_key
          [of exampleMath anonymous "''acc-alice''" "[4, 5]" "[5, 4]" loginState
              "\<lparr>ses_id = ''u'', ses_account = ''acc-alice'', ses_device = Some laptop,
                ses_key = None, ses_expires = None, ses_lastUsed = 0, ses_updated = 0\<rparr>"
              aliceAccount]
  by (simp add: createSession_def Let_def uuid_def loginState_def emptyState_def
        exampleMath_def alicePending_def aliceAccount_def aliceAuth_def anonymous_def
        new_Session_def exampleEntropy_def trustDevice_def isTrusted_def builtSession_def)

text \<open>
  The sibling path: \<open>_authenticate\<close> stores \<open>session.info\<close>, so it keeps a list of
  summaries a list of summaries.
\<close>

lemma upsertSession_keyless:
  "ses_key s = None \<Longrightarrow> list_all (\<lambda>x. ses_key x = None) xs \<Longrightarrow>
   list_all (\<lambda>x. ses_key x = None) (upsertSession s xs)"
  by (induction xs) auto

lemma authenticate_keeps_summaries:
  "authenticate verifySig now (Some sid) ctx st = (Inr ctx', st') \<Longrightarrow>
   sessions st sid = Some session0 \<Longrightarrow> accounts st (ses_account session0) = Some account0 \<Longrightarrow>
   acc_id account0 = ses_account session0 \<Longrightarrow>
   list_all (\<lambda>x. ses_key x = None) (acc_sessions account0) \<Longrightarrow>
   \<exists>account. accounts st' (ses_account session0) = Some account
     \<and> list_all (\<lambda>x. ses_key x = None) (acc_sessions account)"
  by (auto simp: authenticate_def Let_def info_def upsertSession_keyless split: if_splits option.splits)

subsection \<open>Attachments and the existence of vaults\<close>

text \<open>
  Claim C10. For an authenticated account and a stored vault (whose organization, if it
  has one, is stored): when the account lacks the write capability on the vault,
  \<open>createAttachment\<close> and \<open>deleteAttachment\<close> fail \<open>INSUFFICIENT_PERMISSIONS\<close>, and
  when it lacks the read capability, \<open>getAttachment\<close> fails
  \<open>INSUFFICIENT_PERMISSIONS\<close>, where \<open>getVault\<close> fails \<open>NOT_FOUND\<close>. The capability
  is \<open>canWrite\<close> or \<open>canRead\<close> of the organization for a shared vault and ownership
  for a private one. None of the failed calls changes the state.
\<close>

theorem attachment_calls_disclose_vault:
  "requireAuth ctx = Inr (account, session) \<and> vaults st vid = Some vault
   \<and> vaultOrg vault st = Inr org
   \<longrightarrow> (\<not> allowed (canWrite access) org vault account \<longrightarrow>
          createAttachment access ctx (att\<lparr>att_vault := vid\<rparr>) st
            = (Inl (Err INSUFFICIENT_PERMISSIONS), st)
          \<and> deleteAttachment access ctx vid aid st = (Inl (Err INSUFFICIENT_PERMISSIONS), st))
     \<and> (\<not> allowed (canRead access) org vault account \<longrightarrow>
          getAttachment access ctx aid vid st = (Inl (Err INSUFFICIENT_PERMISSIONS), st)
          \<and> getVault access ctx vid st = (Inl (Err NOT_FOUND), st))"
  by (cases org)
     (simp_all add: createAttachment_def deleteAttachment_def getAttachment_def getVault_def
        allowed_def readDenied_def)

text \<open>
  The theorem at Carol, a plain member without write capability on the shared vault, and
  at Dave, who is no member and does not own the private vault of Alice.
\<close>

theorem attachment_calls_disclose_vault_witness:
  "createAttachment exampleAccess (signedIn carolAccount)
       \<lparr>att_id = [], att_vault = ''vault-acme'', att_size = 10\<rparr> orgState
     = (Inl (Err INSUFFICIENT_PERMISSIONS), orgState)
   \<and> deleteAttachment exampleAccess (signedIn carolAccount) ''vault-acme'' ''att-1'' orgState
     = (Inl (Err INSUFFICIENT_PERMISSIONS), orgState)
   \<and> getAttachment exampleAccess (signedIn daveAccount) ''att-1'' ''vault-alice'' orgState
     = (Inl (Err INSUFFICIENT_PERMISSIONS), orgState)
   \<and> getVault exampleAccess (signedIn daveAccount) ''vault-alice'' orgState
     = (Inl (Err NOT_FOUND), orgState)
   \<and> getAttachment exampleAccess (signedIn daveAccount) ''att-1'' ''vault-acme'' orgState
     = (Inl (Err INSUFFICIENT_PERMISSIONS), orgState)"
  using attachment_calls_disclose_vault
          [of "signedIn carolAccount" carolAccount
              "new_Session\<lparr>ses_id := ''ses-1'', ses_account := ''acc-carol''\<rparr>"
              orgState "''vault-acme''" acmeVault "Some acme" exampleAccess
              "\<lparr>att_id = [], att_vault = ''vault-acme'', att_size = 10\<rparr>" "''att-1''"]
        attachment_calls_disclose_vault
          [of "signedIn daveAccount" daveAccount
              "new_Session\<lparr>ses_id := ''ses-1'', ses_account := ''acc-dave''\<rparr>"
              orgState "''vault-alice''" aliceVault None exampleAccess
              "\<lparr>att_id = [], att_vault = ''vault-alice'', att_size = 10\<rparr>" "''att-1''"]
        attachment_calls_disclose_vault
          [of "signedIn daveAccount" daveAccount
              "new_Session\<lparr>ses_id := ''ses-1'', ses_account := ''acc-dave''\<rparr>"
              orgState "''vault-acme''" acmeVault "Some acme" exampleAccess
              "\<lparr>att_id = [], att_vault = ''vault-acme'', att_size = 10\<rparr>" "''att-1''"]
  by (simp add: requireAuth_def signedIn_def orgState_def emptyState_def vaultOrg_def
        acmeVault_def aliceVault_def new_Vault_def allowed_def exampleAccess_def
        isAdmin_def getMember_def acme_def memberOf_def carolAccount_def daveAccount_def
        bobAccount_def aliceOwner_def aliceAccount_def)

text \<open>
  The other method that hides what the caller may not see: \<open>getOrg\<close> fails \<open>NOT_FOUND\<close>
  for an account that is neither the owner nor a member of the stored organization.
\<close>

lemma getOrg_hides_org:
  "requireAuth ctx = Inr (account, session) \<Longrightarrow> orgs st oid = Some og \<Longrightarrow>
   org_owner og \<noteq> acc_id account \<Longrightarrow> \<not> isMember og (acc_id account) \<Longrightarrow>
   getOrg ctx oid st = (Inl (Err NOT_FOUND), st)"
  by (simp add: getOrg_def)

subsection \<open>What the loops change\<close>

text \<open>
  Each loop of the controller writes to few parts of the state: the result state is the
  start state with those parts replaced.
\<close>

lemma sendInvites_frame:
  "\<exists>v ob d. sendInvites clientUrl org invites st
      = st\<lparr>verifications := v, outbox := ob, drawn := d\<rparr> \<and> drawn st \<le> d"
proof (induction invites arbitrary: st)
  case Nil
  show ?case
    by (rule exI [of _ "verifications st"], rule exI [of _ "outbox st"],
        rule exI [of _ "drawn st"]) simp
next
  case (Cons invite invites)
  show ?case
  proof (cases "auths st (inv_email invite)")
    case (Some a)
    let ?st1 = "st\<lparr>outbox := outbox st @
        [(inv_email invite, InviteCreatedMessage invite
            (clientUrl @ ''/invite/'' @ org_id org @ ''/'' @ inv_id invite))]\<rparr>"
    from Cons.IH [of ?st1] obtain v ob d where
      "sendInvites clientUrl org invites ?st1 = ?st1\<lparr>verifications := v, outbox := ob, drawn := d\<rparr>"
      "drawn ?st1 \<le> d" by blast
    then have "sendInvites clientUrl org (invite # invites) st
        = st\<lparr>verifications := v, outbox := ob, drawn := d\<rparr> \<and> drawn st \<le> d"
      using Some by (simp add: Let_def)
    then show ?thesis by blast
  next
    case None
    obtain v0 st1 where n: "new_EmailVerification (inv_email invite) [] st = (v0, st1)"
      by (cases "new_EmailVerification (inv_email invite) [] st")
    then have st1: "st1 = st\<lparr>drawn := Suc (Suc (drawn st))\<rparr>"
      by (auto simp: new_EmailVerification_def uuid_def Let_def)
    let ?st2 = "st1\<lparr>verifications := (verifications st1)(ev_email v0 \<mapsto> v0)\<rparr>"
    let ?st3 = "?st2\<lparr>outbox := outbox ?st2 @
        [(inv_email invite, InviteCreatedMessage invite
            (clientUrl @ ''/invite/'' @ org_id org @ ''/'' @ inv_id invite
               @ ''?verify='' @ ev_token v0 @ ''&email='' @ inv_email invite))]\<rparr>"
    from Cons.IH [of ?st3] obtain v ob d where
      r: "sendInvites clientUrl org invites ?st3 = ?st3\<lparr>verifications := v, outbox := ob, drawn := d\<rparr>"
      "drawn ?st3 \<le> d" by blast
    have "sendInvites clientUrl org (invite # invites) st = sendInvites clientUrl org invites ?st3"
      using None n by (simp add: Let_def)
    with r st1 have "sendInvites clientUrl org (invite # invites) st
        = st\<lparr>verifications := v, outbox := ob, drawn := d\<rparr> \<and> drawn st \<le> d"
      by simp
    then show ?thesis by blast
  qed
qed

lemma unlinkRemoved_frame:
  "\<exists>f. snd (unlinkRemoved org ms st) = st\<lparr>accounts := f\<rparr>"
proof (induction ms arbitrary: st)
  case Nil
  show ?case by (rule exI [of _ "accounts st"]) simp
next
  case (Cons m ms)
  show ?case
  proof (cases "accounts st (mem_id m)")
    case None
    then show ?thesis by (intro exI [of _ "accounts st"]) simp
  next
    case (Some acc0)
    let ?acc = "acc0\<lparr>acc_orgs := filter (\<lambda>oid. oid \<noteq> org_id org) (acc_orgs acc0)\<rparr>"
    let ?st1 = "st\<lparr>accounts := (accounts st)(acc_id ?acc \<mapsto> ?acc)\<rparr>"
    from Cons.IH [of ?st1] obtain f where "snd (unlinkRemoved org ms ?st1) = ?st1\<lparr>accounts := f\<rparr>"
      by blast
    with Some have "snd (unlinkRemoved org (m # ms) st) = st\<lparr>accounts := f\<rparr>"
      by (simp add: Let_def)
    then show ?thesis by blast
  qed
qed

lemma renameVaults_frame:
  "\<exists>f. snd (renameVaults newVaults entries st) = st\<lparr>vaults := f\<rparr>"
proof (induction entries arbitrary: st)
  case Nil
  show ?case by (rule exI [of _ "vaults st"]) simp
next
  case (Cons entry entries)
  obtain vid name where e: "entry = (vid, name)" by (cases entry)
  show ?case
  proof (cases "find (\<lambda>v. fst v = vid) newVaults")
    case None
    with e Cons.IH [of st] show ?thesis by simp
  next
    case (Some nv)
    show ?thesis
    proof (cases "snd nv \<noteq> name")
      case False
      with e Some Cons.IH [of st] show ?thesis by simp
    next
      case True
      show ?thesis
      proof (cases "vaults st vid")
        case None
        with e \<open>find (\<lambda>v. fst v = vid) newVaults = Some nv\<close> True
        show ?thesis by (intro exI [of _ "vaults st"]) simp
      next
        case (Some vault0)
        let ?vault = "vault0\<lparr>vlt_name := snd nv\<rparr>"
        let ?st1 = "st\<lparr>vaults := (vaults st)(vlt_id ?vault \<mapsto> ?vault)\<rparr>"
        from Cons.IH [of ?st1] obtain f where
          "snd (renameVaults newVaults entries ?st1) = ?st1\<lparr>vaults := f\<rparr>" by blast
        with e \<open>find (\<lambda>v. fst v = vid) newVaults = Some nv\<close> True Some
        have "snd (renameVaults newVaults (entry # entries) st) = st\<lparr>vaults := f\<rparr>"
          by (simp add: Let_def)
        then show ?thesis by blast
      qed
    qed
  qed
qed


lemma linkAdded_frame:
  "\<exists>f ob. snd (linkAdded clientUrl account org members st) = st\<lparr>accounts := f, outbox := ob\<rparr>"
proof (induction members arbitrary: st)
  case Nil
  show ?case by (rule exI [of _ "accounts st"], rule exI [of _ "outbox st"]) simp
next
  case (Cons member members)
  show ?case
  proof (cases "accounts st (mem_id member)")
    case None
    then show ?thesis by (intro exI [of _ "accounts st"] exI [of _ "outbox st"]) simp
  next
    case (Some acc0)
    let ?acc = "acc0\<lparr>acc_orgs := acc_orgs acc0 @ [org_id org]\<rparr>"
    let ?st1 = "st\<lparr>accounts := (accounts st)(acc_id ?acc \<mapsto> ?acc)\<rparr>"
    let ?st2 = "if mem_id member \<noteq> acc_id account
                then ?st1\<lparr>outbox := outbox ?st1 @
                       [(mem_email member,
                         MemberAddedMessage org (clientUrl @ ''/org/'' @ org_id org))]\<rparr>
                else ?st1"
    from Cons.IH [of ?st2] obtain f ob where
      "snd (linkAdded clientUrl account org members ?st2) = ?st2\<lparr>accounts := f, outbox := ob\<rparr>"
      by blast
    with Some have "snd (linkAdded clientUrl account org (member # members) st)
        = st\<lparr>accounts := f, outbox := ob\<rparr>"
      by (simp add: Let_def split: if_splits)
    then show ?thesis by blast
  qed
qed


lemma suspendMemberships_frame:
  "\<exists>f. snd (suspendMemberships account oids st) = st\<lparr>orgs := f\<rparr>"
proof (induction oids arbitrary: st)
  case Nil
  show ?case by (rule exI [of _ "orgs st"]) simp
next
  case (Cons oid oids)
  show ?case
  proof (cases "orgs st oid")
    case None
    then show ?thesis by (intro exI [of _ "orgs st"]) simp
  next
    case (Some org)
    note org = Some
    show ?thesis
    proof (cases "isOwner org (acc_id account)")
      case True
      with org Cons.IH [of st] show ?thesis by simp
    next
      case False
      show ?thesis
      proof (cases "getMember org (acc_id account)")
        case None
        with org False show ?thesis by (intro exI [of _ "orgs st"]) simp
      next
        case (Some m)
        let ?org1 = "org\<lparr>org_members :=
           updateMember (acc_id account) (\<lambda>m. m\<lparr>mem_role := Suspended\<rparr>) (org_members org)\<rparr>"
        let ?st1 = "st\<lparr>orgs := (orgs st)(org_id ?org1 \<mapsto> ?org1)\<rparr>"
        from Cons.IH [of ?st1] obtain f where
          "snd (suspendMemberships account oids ?st1) = ?st1\<lparr>orgs := f\<rparr>" by blast
        with Some org False
        have "snd (suspendMemberships account (oid # oids) st) = st\<lparr>orgs := f\<rparr>"
          by (simp add: Let_def)
        then show ?thesis by blast
      qed
    qed
  qed
qed

lemma revokeSessions_frame:
  "\<exists>f. revokeSessions ss st = st\<lparr>sessions := f\<rparr>"
  unfolding revokeSessions_def
proof (induction ss arbitrary: st)
  case Nil
  show ?case by (rule exI [of _ "sessions st"]) simp
next
  case (Cons s ss)
  let ?st1 = "st\<lparr>sessions := (sessions st)(ses_id s := None)\<rparr>"
  from Cons.IH [of ?st1] obtain f where
    "fold (\<lambda>s st'. st'\<lparr>sessions := (sessions st')(ses_id s := None)\<rparr>) ss ?st1
       = ?st1\<lparr>sessions := f\<rparr>" by blast
  then have "fold (\<lambda>s st'. st'\<lparr>sessions := (sessions st')(ses_id s := None)\<rparr>) (s # ss) st
       = st\<lparr>sessions := f\<rparr>" by simp
  then show ?case by blast
qed

subsection \<open>Owner and organization of stored vaults\<close>

lemma renameVaults_owned:
  "ownedVaults st \<Longrightarrow> ownedVaults (snd (renameVaults newVaults entries st))"
proof (induction entries arbitrary: st)
  case Nil
  then show ?case by simp
next
  case (Cons entry entries)
  obtain vid name where e: "entry = (vid, name)" by (cases entry)
  show ?case
  proof (cases "find (\<lambda>v. fst v = vid) newVaults")
    case None
    with e Cons show ?thesis by simp
  next
    case (Some nv)
    note nv = Some
    show ?thesis
    proof (cases "snd nv \<noteq> name")
      case False
      with e nv Cons show ?thesis by simp
    next
      case True
      show ?thesis
      proof (cases "vaults st vid")
        case None
        with e nv True Cons.prems show ?thesis by simp
      next
        case (Some vault0)
        let ?vault = "vault0\<lparr>vlt_name := snd nv\<rparr>"
        let ?st1 = "st\<lparr>vaults := (vaults st)(vlt_id ?vault \<mapsto> ?vault)\<rparr>"
        have "vlt_owner vault0 \<noteq> None"
          using Cons.prems Some by (auto simp: ownedVaults_def)
        then have "ownedVaults ?st1"
          using Cons.prems by (auto simp: ownedVaults_def)
        then have "ownedVaults (snd (renameVaults newVaults entries ?st1))"
          by (rule Cons.IH)
        with e nv True Some show ?thesis by (simp add: Let_def)
      qed
    qed
  qed
qed

lemma ownedVaults_cong: "vaults st' = vaults st \<Longrightarrow> ownedVaults st \<Longrightarrow> ownedVaults st'"
  by (simp add: ownedVaults_def)

lemma applyOrgUpdate_owned:
  assumes "ownedVaults st"
  shows "ownedVaults (snd (applyOrgUpdate clientUrl account owner org upd st))"
proof -
  let ?st1 = "sendInvites clientUrl org (addedInvites org (org_invites upd)) st"
  obtain v ob d where st1: "?st1 = st\<lparr>verifications := v, outbox := ob, drawn := d\<rparr>"
    using sendInvites_frame by blast
  have o1: "ownedVaults ?st1"
    using assms by (rule ownedVaults_cong [rotated]) (simp add: st1)
  obtain r2 st2 where u: "unlinkRemoved org (removedMembers org (org_members upd)) ?st1 = (r2, st2)"
    by (cases "unlinkRemoved org (removedMembers org (org_members upd)) ?st1")
  obtain f where "snd (unlinkRemoved org (removedMembers org (org_members upd)) ?st1)
      = ?st1\<lparr>accounts := f\<rparr>"
    using unlinkRemoved_frame by blast
  with u have st2: "st2 = ?st1\<lparr>accounts := f\<rparr>" by simp
  have o2: "ownedVaults st2"
    using o1 by (rule ownedVaults_cong [rotated]) (simp add: st2)
  obtain r3 st3 where rv: "renameVaults (org_vaults upd) (org_vaults org) st2 = (r3, st3)"
    by (cases "renameVaults (org_vaults upd) (org_vaults org) st2")
  have o3: "ownedVaults st3"
    using renameVaults_owned [OF o2, of "org_vaults upd" "org_vaults org"] rv by simp
  have o4: "ownedVaults (snd (linkAdded clientUrl account org' ms st3))" for org' ms
  proof -
    obtain g ob' where "snd (linkAdded clientUrl account org' ms st3) = st3\<lparr>accounts := g, outbox := ob'\<rparr>"
      using linkAdded_frame by blast
    then show ?thesis using o3 by (simp add: ownedVaults_def)
  qed
  show ?thesis
  proof (cases r2)
    case (Inl e)
    with u o2 show ?thesis by (simp add: applyOrgUpdate_def Let_def)
  next
    case (Inr u2)
    note r2 = Inr
    show ?thesis
    proof (cases r3)
      case (Inl e)
      with u r2 rv o3 show ?thesis by (simp add: applyOrgUpdate_def Let_def)
    next
      case (Inr u3)
      let ?org2 = "assignOrg owner org upd"
      obtain r4 st4 where la: "linkAdded clientUrl account ?org2 (addedMembers org (org_members upd)) st3 = (r4, st4)"
        by (cases "linkAdded clientUrl account ?org2 (addedMembers org (org_members upd)) st3")
      have o4': "ownedVaults st4"
        using o4 [of ?org2 "addedMembers org (org_members upd)"] la by simp
      show ?thesis
        using u r2 rv Inr la o3 o4'
        by (cases r4) (simp_all add: applyOrgUpdate_def Let_def uuid_def ownedVaults_def)
    qed
  qed
qed

lemma updateOrg_owned:
  "ownedVaults st \<Longrightarrow> ownedVaults (snd (updateOrg clientUrl ctx upd st))"
  by (simp add: updateOrg_def Let_def applyOrgUpdate_owned split: sum.splits option.splits prod.splits)


lemma createAccount_owned:
  "ownedVaults st \<Longrightarrow> ownedVaults (snd (createAccount ctx now account auth verify st))"
  by (auto simp: createAccount_def checkEmailVerificationToken_def Let_def uuid_def
        ownedVaults_def new_Vault_def split: option.splits if_splits)

lemma updateVault_owned:
  "ownedVaults st \<Longrightarrow> ownedVaults (snd (updateVault access ctx now upd st))"
  by (auto simp: updateVault_def Let_def uuid_def ownedVaults_def
        split: sum.splits option.splits if_splits prod.splits)

lemma createVault_owned:
  "ownedVaults st \<Longrightarrow> ownedVaults (snd (createVault ctx now vault st))"
  by (auto simp: createVault_def Let_def uuid_def ownedVaults_def
        split: sum.splits option.splits if_splits prod.splits)

lemma recoverAccount_owned:
  assumes "ownedVaults st"
  shows "ownedVaults (snd (recoverAccount ctx now upd auth verify st))"
proof -
  obtain r1 st1 where c: "checkEmailVerificationToken (auth_email auth) verify st = (r1, st1)"
    by (cases "checkEmailVerificationToken (auth_email auth) verify st")
  then have v1: "vaults st1 = vaults st"
    by (auto simp: checkEmailVerificationToken_def split: option.splits if_splits)
  have o1: "ownedVaults st1" using assms v1 by (simp add: ownedVaults_def)
  have o3: "ownedVaults (snd (suspendMemberships a oids (revokeSessions ss st1)))" for a oids ss
  proof -
    obtain f where "revokeSessions ss st1 = st1\<lparr>sessions := f\<rparr>"
      using revokeSessions_frame by blast
    moreover obtain g where "snd (suspendMemberships a oids (revokeSessions ss st1))
        = (revokeSessions ss st1)\<lparr>orgs := g\<rparr>"
      using suspendMemberships_frame by blast
    ultimately show ?thesis using o1 by (simp add: ownedVaults_def)
  qed
  show ?thesis
  proof (cases r1)
    case (Inl e)
    with c o1 show ?thesis by (simp add: recoverAccount_def)
  next
    case (Inr u)
    show ?thesis
    proof (cases "auths st1 (auth_email auth)")
      case None
      with c Inr o1 show ?thesis by (simp add: recoverAccount_def)
    next
      case (Some existingAuth)
      note ea = Some
      show ?thesis
      proof (cases "accounts st1 (auth_account existingAuth)")
        case None
        with c Inr ea o1 show ?thesis by (simp add: recoverAccount_def)
      next
        case (Some account0)
        let ?account = "account0
                           \<lparr>acc_email := acc_email upd, acc_publicKey := acc_publicKey upd,
                            acc_keyParams := acc_keyParams upd,
                            acc_encryptionParams := acc_encryptionParams upd,
                            acc_encryptedData := acc_encryptedData upd\<rparr>"
        obtain r3 st3 where sm: "suspendMemberships ?account (acc_orgs ?account)
              (revokeSessions (acc_sessions ?account) st1) = (r3, st3)"
          by (cases "suspendMemberships ?account (acc_orgs ?account)
              (revokeSessions (acc_sessions ?account) st1)")
        have "ownedVaults st3"
          using o3 [of ?account "acc_orgs ?account" "acc_sessions ?account"] sm by simp
        then show ?thesis
          using c Inr ea Some sm
          by (cases r3) (auto simp: recoverAccount_def Let_def ownedVaults_def new_Vault_def)
      qed
    qed
  qed
qed

lemma createAccount_vault:
  "fst (createAccount ctx now account auth verify st) = Inr a \<Longrightarrow>
   \<exists>v. vaults (snd (createAccount ctx now account auth verify st)) (acc_mainVault a) = Some v
     \<and> vlt_owner v = Some (acc_id a) \<and> vlt_org v = None"
  by (auto simp: createAccount_def checkEmailVerificationToken_def Let_def uuid_def
        new_Vault_def split: option.splits if_splits)

lemma createVault_vault:
  "fst (createVault ctx now vault st) = Inr v \<Longrightarrow>
   vaults (snd (createVault ctx now vault st)) (vlt_id v) = Some v
   \<and> vlt_org v = vlt_org vault \<and> vlt_org v \<noteq> None
   \<and> (\<exists>account. ctx_account ctx = Some account \<and> vlt_owner v = Some (acc_id account))"
  by (auto simp: createVault_def requireAuth_def Let_def uuid_def
        split: sum.splits option.splits if_splits prod.splits)

text \<open>
  Claim C4, as amended. Every operation that saves a vault (\<open>createAccount\<close>,
  \<open>recoverAccount\<close>, \<open>updateVault\<close>, \<open>createVault\<close> and the renaming of
  \<open>updateOrg\<close>) keeps the invariant that every stored vault has its owner set, so no
  stored vault has neither owner nor organization. The private vault that
  \<open>createAccount\<close> provisions has its owner set, to the new account, and no
  organization. Every vault that \<open>createVault\<close> produces has both set: the organization
  of the request and, as owner, the account of the caller.
\<close>

theorem vault_owner_and_org:
  "(ownedVaults st \<longrightarrow>
      ownedVaults (snd (createAccount ctx now account auth verify st))
      \<and> ownedVaults (snd (recoverAccount ctx now account auth verify st))
      \<and> ownedVaults (snd (updateVault access ctx now vault st))
      \<and> ownedVaults (snd (createVault ctx now vault st))
      \<and> ownedVaults (snd (updateOrg clientUrl ctx org st)))
   \<and> (\<forall>a. fst (createAccount ctx now account auth verify st) = Inr a \<longrightarrow>
        (\<exists>v. vaults (snd (createAccount ctx now account auth verify st)) (acc_mainVault a) = Some v
           \<and> vlt_owner v = Some (acc_id a) \<and> vlt_org v = None))
   \<and> (\<forall>v. fst (createVault ctx now vault st) = Inr v \<longrightarrow>
        vaults (snd (createVault ctx now vault st)) (vlt_id v) = Some v
        \<and> vlt_org v = vlt_org vault \<and> vlt_org v \<noteq> None
        \<and> (\<exists>caller. ctx_account ctx = Some caller \<and> vlt_owner v = Some (acc_id caller)))"
proof (intro conjI)
  show "ownedVaults st \<longrightarrow>
      ownedVaults (snd (createAccount ctx now account auth verify st))
      \<and> ownedVaults (snd (recoverAccount ctx now account auth verify st))
      \<and> ownedVaults (snd (updateVault access ctx now vault st))
      \<and> ownedVaults (snd (createVault ctx now vault st))
      \<and> ownedVaults (snd (updateOrg clientUrl ctx org st))"
    by (simp add: createAccount_owned recoverAccount_owned updateVault_owned
          createVault_owned updateOrg_owned)
  show "\<forall>a. fst (createAccount ctx now account auth verify st) = Inr a \<longrightarrow>
        (\<exists>v. vaults (snd (createAccount ctx now account auth verify st)) (acc_mainVault a) = Some v
           \<and> vlt_owner v = Some (acc_id a) \<and> vlt_org v = None)"
    by (intro allI impI createAccount_vault)
  show "\<forall>v. fst (createVault ctx now vault st) = Inr v \<longrightarrow>
        vaults (snd (createVault ctx now vault st)) (vlt_id v) = Some v
        \<and> vlt_org v = vlt_org vault \<and> vlt_org v \<noteq> None
        \<and> (\<exists>caller. ctx_account ctx = Some caller \<and> vlt_owner v = Some (acc_id caller))"
    by (intro allI impI createVault_vault)
qed

text \<open>
  The theorem at the organization state, where Bob creates a shared vault, and at the
  signup of Bob.
\<close>

lemma ownedVaults_orgState: "ownedVaults orgState"
  by (simp add: ownedVaults_def orgState_def emptyState_def aliceVault_def acmeVault_def
        new_Vault_def)

theorem vault_owner_and_org_witness:
  "ownedVaults orgState
   \<and> ownedVaults (snd (createVault (signedIn bobAccount) 7 plansVault orgState))
   \<and> (\<exists>v. fst (createVault (signedIn bobAccount) 7 plansVault orgState) = Inr v
        \<and> vaults (snd (createVault (signedIn bobAccount) 7 plansVault orgState)) (vlt_id v) = Some v
        \<and> vlt_owner v = Some ''acc-bob'' \<and> vlt_org v = Some (''org-acme'', ''Acme''))
   \<and> (\<exists>a v. fst (createAccount anonymous 7 bobSignup bobAuth ''t0ken'' verifyingState) = Inr a
        \<and> vaults (snd (createAccount anonymous 7 bobSignup bobAuth ''t0ken'' verifyingState))
              (acc_mainVault a) = Some v
        \<and> vlt_owner v = Some (acc_id a) \<and> vlt_org v = None)"
proof -
  have c: "fst (createVault (signedIn bobAccount) 7 plansVault orgState)
      = Inr (plansVault\<lparr>vlt_id := ''u'', vlt_owner := Some ''acc-bob'', vlt_created := 7,
                vlt_updated := 7, vlt_revision := ''uu''\<rparr>)"
    by (simp add: createVault_def requireAuth_def signedIn_def orgState_def emptyState_def
          plansVault_def new_Vault_def isAdmin_def getMember_def acme_def memberOf_def
          bobAccount_def aliceOwner_def aliceAccount_def carolAccount_def uuid_def Let_def
          exampleEntropy_def)
  have a: "fst (createAccount anonymous 7 bobSignup bobAuth ''t0ken'' verifyingState)
      = Inr (bobSignup\<lparr>acc_id := ''u'', acc_revision := ''uu'', acc_mainVault := ''uuu''\<rparr>)"
    by (simp add: createAccount_def checkEmailVerificationToken_def verifyingState_def
          emptyState_def bobVerification_def bobSignup_def bobAccount_def aliceAccount_def
          bobAuth_def uuid_def Let_def exampleEntropy_def)
  show ?thesis
    using vault_owner_and_org
            [of orgState "signedIn bobAccount" 7 bobSignup bobAuth "''t0ken''" exampleAccess
                plansVault "''https://example.com''" acme]
          vault_owner_and_org
            [of verifyingState anonymous 7 bobSignup bobAuth "''t0ken''" exampleAccess
                plansVault "''https://example.com''" acme]
          ownedVaults_orgState c a
    by (simp add: signedIn_def bobAccount_def plansVault_def new_Vault_def)
qed

text \<open>
  The claim as the spec states it fails for the vault that Bob creates: it is stored
  with both its owner and its organization set.
\<close>

theorem vault_owner_and_org_counterexample:
  "\<exists>v. fst (createVault (signedIn bobAccount) 7 plansVault orgState) = Inr v
     \<and> vaults (snd (createVault (signedIn bobAccount) 7 plansVault orgState)) (vlt_id v) = Some v
     \<and> vlt_owner v = Some ''acc-bob'' \<and> vlt_org v = Some (''org-acme'', ''Acme'')"
  by (simp add: createVault_def requireAuth_def signedIn_def orgState_def emptyState_def
        plansVault_def new_Vault_def isAdmin_def getMember_def acme_def memberOf_def
        bobAccount_def aliceOwner_def aliceAccount_def carolAccount_def uuid_def Let_def
        exampleEntropy_def)

subsection \<open>updateOrg: who may change the membership\<close>

text \<open>
  The test of lines 419 to 428 is the membership diff of the spec: the three lists and
  the role test of the code are empty or false exactly when the update adds no member,
  removes none, adds no invite and changes no role.
\<close>

lemma getMember_None_iff: "getMember org aid = None \<longleftrightarrow> aid \<notin> mem_id ` set (org_members org)"
  by (auto simp: getMember_def find_None_iff)

lemma isMember_iff: "isMember org aid \<longleftrightarrow> aid \<in> mem_id ` set (org_members org)"
  using getMember_None_iff [of org aid] by (cases "getMember org aid") (simp_all add: isMember_def)

lemma getInvite_None_iff: "getInvite org iid = None \<longleftrightarrow> iid \<notin> inv_id ` set (org_invites org)"
  by (auto simp: getInvite_def find_None_iff)

lemma addedMembers_nonempty:
  "0 < length (addedMembers org ms) \<longleftrightarrow> (\<exists>m \<in> set ms. mem_id m \<notin> mem_id ` set (org_members org))"
  by (auto simp: addedMembers_def isMember_iff filter_empty_conv)

lemma removedMembers_nonempty:
  "0 < length (removedMembers org ms)
     \<longleftrightarrow> (\<exists>m0 \<in> set (org_members org). mem_id m0 \<notin> mem_id ` set ms)"
  by (auto simp: removedMembers_def list_ex_iff filter_empty_conv)

lemma addedInvites_nonempty:
  "0 < length (addedInvites org is) \<longleftrightarrow> (\<exists>i \<in> set is. inv_id i \<notin> inv_id ` set (org_invites org))"
  by (auto simp: addedInvites_def filter_empty_conv getInvite_None_iff [symmetric]
        split: option.splits)

lemma roleChanged_iff:
  "roleChanged org ms \<longleftrightarrow>
     (\<exists>m \<in> set ms. mem_id m \<notin> mem_id ` set (org_members org)
        \<or> (\<exists>m0. getMember org (mem_id m) = Some m0 \<and> mem_role m0 \<noteq> mem_role m))"
proof -
  have "(case getMember org (mem_id m) of None \<Rightarrow> True | Some member \<Rightarrow> mem_role member \<noteq> mem_role m)
      \<longleftrightarrow> (mem_id m \<notin> mem_id ` set (org_members org)
        \<or> (\<exists>m0. getMember org (mem_id m) = Some m0 \<and> mem_role m0 \<noteq> mem_role m))"
    for m :: OrgMember
    using getMember_None_iff [of org "mem_id m"] by (cases "getMember org (mem_id m)") simp_all
  then show ?thesis by (simp add: roleChanged_def list_ex_iff)
qed

lemma diff_test_iff:
  "(0 < length (addedMembers org (org_members upd))
    \<or> 0 < length (removedMembers org (org_members upd))
    \<or> 0 < length (addedInvites org (org_invites upd))
    \<or> roleChanged org (org_members upd)) \<longleftrightarrow> membershipChanged org upd"
  unfolding addedMembers_nonempty removedMembers_nonempty addedInvites_nonempty roleChanged_iff
    membershipChanged_def
  by blast


lemma updateOrg_not_admin:
  "requireAuth ctx = Inr (account, session) \<Longrightarrow> orgs st (org_id upd) = Some org \<Longrightarrow>
   org_revision upd = org_revision org \<Longrightarrow>
   org_owner org \<noteq> acc_id account \<Longrightarrow> \<not> isOwner org (acc_id account) \<Longrightarrow>
   \<not> isAdmin org (acc_id account) \<Longrightarrow>
   updateOrg clientUrl ctx upd st = (Inl (Err INSUFFICIENT_PERMISSIONS), st)"
  by (simp add: updateOrg_def)

lemma updateOrg_admin_diff:
  "requireAuth ctx = Inr (account, session) \<Longrightarrow> orgs st (org_id upd) = Some org \<Longrightarrow>
   org_revision upd = org_revision org \<Longrightarrow>
   org_owner org \<noteq> acc_id account \<Longrightarrow> \<not> isOwner org (acc_id account) \<Longrightarrow>
   membershipChanged org upd \<Longrightarrow>
   updateOrg clientUrl ctx upd st = (Inl (Err INSUFFICIENT_PERMISSIONS), st)"
  using diff_test_iff [of org upd] by (simp add: updateOrg_def Let_def)

lemma updateOrg_passes:
  "requireAuth ctx = Inr (account, session) \<Longrightarrow> orgs st (org_id upd) = Some org \<Longrightarrow>
   org_revision upd = org_revision org \<Longrightarrow>
   org_owner org = acc_id account \<or> isOwner org (acc_id account)
     \<or> (isAdmin org (acc_id account) \<and> \<not> membershipChanged org upd) \<Longrightarrow>
   updateOrg clientUrl ctx upd st
     = applyOrgUpdate clientUrl account
         (org_owner org = acc_id account \<or> isOwner org (acc_id account)) org upd st"
  using diff_test_iff [of org upd] by (auto simp: updateOrg_def Let_def)

text \<open>
  Claim C6, as amended. For an \<open>updateOrg\<close> call by an authenticated account on a stored
  organization, with the revision that is stored: if the caller is an admin of the
  organization and not its owner, and the membership diff against the stored
  organization is not empty, the call fails \<open>INSUFFICIENT_PERMISSIONS\<close>; if the caller
  is neither admin nor owner, every update fails \<open>INSUFFICIENT_PERMISSIONS\<close>. The failed
  call changes nothing.
\<close>

theorem updateOrg_membership_needs_owner:
  "requireAuth ctx = Inr (account, session) \<and> orgs st (org_id upd) = Some org
   \<and> org_revision upd = org_revision org
   \<and> org_owner org \<noteq> acc_id account \<and> \<not> isOwner org (acc_id account)
   \<longrightarrow> (isAdmin org (acc_id account) \<and> membershipChanged org upd \<longrightarrow>
          updateOrg clientUrl ctx upd st = (Inl (Err INSUFFICIENT_PERMISSIONS), st))
     \<and> (\<not> isAdmin org (acc_id account) \<longrightarrow>
          updateOrg clientUrl ctx upd st = (Inl (Err INSUFFICIENT_PERMISSIONS), st))"
  using updateOrg_admin_diff updateOrg_not_admin by blast

text \<open>
  The theorem at Bob, an admin who makes Carol an admin, and at Carol, a plain member
  who renames the organization.
\<close>

theorem updateOrg_membership_needs_owner_witness:
  "updateOrg ''https://example.com'' (signedIn bobAccount) promoteCarol orgState
     = (Inl (Err INSUFFICIENT_PERMISSIONS), orgState)
   \<and> updateOrg ''https://example.com'' (signedIn carolAccount) renameAcme orgState
     = (Inl (Err INSUFFICIENT_PERMISSIONS), orgState)"
proof -
  have m: "membershipChanged acme promoteCarol"
    by (simp add: membershipChanged_def promoteCarol_def acme_def memberOf_def getMember_def
          aliceOwner_def bobAccount_def carolAccount_def aliceAccount_def)
  have b: "isAdmin acme ''acc-bob''" "\<not> isOwner acme ''acc-bob''"
    by (simp_all add: isAdmin_def isOwner_def getMember_def acme_def memberOf_def
          aliceOwner_def bobAccount_def carolAccount_def aliceAccount_def)
  have c: "\<not> isAdmin acme ''acc-carol''" "\<not> isOwner acme ''acc-carol''"
    by (simp_all add: isAdmin_def isOwner_def getMember_def acme_def memberOf_def
          aliceOwner_def bobAccount_def carolAccount_def aliceAccount_def)
  show ?thesis
    using updateOrg_membership_needs_owner
            [of "signedIn bobAccount" bobAccount
                "new_Session\<lparr>ses_id := ''ses-1'', ses_account := ''acc-bob''\<rparr>"
                orgState promoteCarol acme "''https://example.com''"]
          updateOrg_membership_needs_owner
            [of "signedIn carolAccount" carolAccount
                "new_Session\<lparr>ses_id := ''ses-1'', ses_account := ''acc-carol''\<rparr>"
                orgState renameAcme acme "''https://example.com''"]
          m b c
    by (simp add: requireAuth_def signedIn_def orgState_def emptyState_def promoteCarol_def
          renameAcme_def bobAccount_def carolAccount_def aliceAccount_def)
       (simp add: acme_def)
qed

text \<open>
  The claim as the spec states it fails when the revision is stale: the revision is
  checked first, so the update of Carol, who is neither admin nor owner, fails
  \<open>OUTDATED_REVISION\<close>.
\<close>

theorem updateOrg_membership_counterexample:
  "requireAuth (signedIn carolAccount)
     = Inr (carolAccount, new_Session\<lparr>ses_id := ''ses-1'', ses_account := ''acc-carol''\<rparr>)
   \<and> \<not> isAdmin acme ''acc-carol'' \<and> \<not> isOwner acme ''acc-carol''
   \<and> org_owner acme \<noteq> ''acc-carol''
   \<and> updateOrg ''https://example.com'' (signedIn carolAccount)
        (renameAcme\<lparr>org_revision := ''orev-0''\<rparr>) orgState
     = (Inl (Err OUTDATED_REVISION), orgState)"
  by (simp add: updateOrg_def requireAuth_def signedIn_def orgState_def emptyState_def
        renameAcme_def isAdmin_def isOwner_def getMember_def acme_def memberOf_def
        aliceOwner_def bobAccount_def carolAccount_def aliceAccount_def)

subsection \<open>updateOrg: the steps after the checks\<close>

text \<open>
  A loop that loads records succeeds when the records it loads are stored; the writes of
  the loops never remove an account or a vault.
\<close>

lemma unlinkRemoved_accounts:
  "accounts st x \<noteq> None \<Longrightarrow> accounts (snd (unlinkRemoved org ms st)) x \<noteq> None"
proof (induction ms arbitrary: st)
  case Nil
  then show ?case by simp
next
  case (Cons m ms)
  show ?case
  proof (cases "accounts st (mem_id m)")
    case None
    with Cons.prems show ?thesis by simp
  next
    case (Some acc0)
    let ?acc = "acc0\<lparr>acc_orgs := filter (\<lambda>oid. oid \<noteq> org_id org) (acc_orgs acc0)\<rparr>"
    let ?st1 = "st\<lparr>accounts := (accounts st)(acc_id ?acc \<mapsto> ?acc)\<rparr>"
    have "accounts ?st1 x \<noteq> None" using Cons.prems by simp
    then have "accounts (snd (unlinkRemoved org ms ?st1)) x \<noteq> None" by (rule Cons.IH)
    with Some show ?thesis by (simp add: Let_def)
  qed
qed

lemma unlinkRemoved_ok:
  "list_all (\<lambda>m. accounts st (mem_id m) \<noteq> None) ms \<Longrightarrow> fst (unlinkRemoved org ms st) = Inr ()"
proof (induction ms arbitrary: st)
  case Nil
  then show ?case by simp
next
  case (Cons m ms)
  then obtain acc0 where a: "accounts st (mem_id m) = Some acc0" by auto
  let ?acc = "acc0\<lparr>acc_orgs := filter (\<lambda>oid. oid \<noteq> org_id org) (acc_orgs acc0)\<rparr>"
  let ?st1 = "st\<lparr>accounts := (accounts st)(acc_id ?acc \<mapsto> ?acc)\<rparr>"
  have "list_all (\<lambda>m. accounts ?st1 (mem_id m) \<noteq> None) ms"
    using Cons.prems by (auto simp: list_all_iff)
  then have "fst (unlinkRemoved org ms ?st1) = Inr ()" by (rule Cons.IH)
  with a show ?case by (simp add: Let_def)
qed

lemma renameVaults_ok:
  "list_all (\<lambda>v. vaults st (fst v) \<noteq> None) entries \<Longrightarrow>
   fst (renameVaults newVaults entries st) = Inr ()"
proof (induction entries arbitrary: st)
  case Nil
  then show ?case by simp
next
  case (Cons entry entries)
  obtain vid name where e: "entry = (vid, name)" by (cases entry)
  with Cons.prems obtain vault0 where v: "vaults st vid = Some vault0" by auto
  have rest: "list_all (\<lambda>v. vaults st (fst v) \<noteq> None) entries" using Cons.prems by simp
  show ?case
  proof (cases "find (\<lambda>v. fst v = vid) newVaults")
    case None
    with e rest Cons.IH [of st] show ?thesis by simp
  next
    case (Some nv)
    show ?thesis
    proof (cases "snd nv \<noteq> name")
      case False
      with e Some rest Cons.IH [of st] show ?thesis by simp
    next
      case True
      let ?vault = "vault0\<lparr>vlt_name := snd nv\<rparr>"
      let ?st1 = "st\<lparr>vaults := (vaults st)(vlt_id ?vault \<mapsto> ?vault)\<rparr>"
      have "list_all (\<lambda>v. vaults ?st1 (fst v) \<noteq> None) entries"
        using rest by (auto simp: list_all_iff)
      then have "fst (renameVaults newVaults entries ?st1) = Inr ()" by (rule Cons.IH)
      with e Some True v show ?thesis by (simp add: Let_def)
    qed
  qed
qed

lemma linkAdded_ok:
  "list_all (\<lambda>m. accounts st (mem_id m) \<noteq> None) ms \<Longrightarrow>
   fst (linkAdded clientUrl account org ms st) = Inr ()"
proof (induction ms arbitrary: st)
  case Nil
  then show ?case by simp
next
  case (Cons m ms)
  then obtain acc0 where a: "accounts st (mem_id m) = Some acc0" by auto
  let ?acc = "acc0\<lparr>acc_orgs := acc_orgs acc0 @ [org_id org]\<rparr>"
  let ?st1 = "st\<lparr>accounts := (accounts st)(acc_id ?acc \<mapsto> ?acc)\<rparr>"
  let ?st2 = "if mem_id m \<noteq> acc_id account
              then ?st1\<lparr>outbox := outbox ?st1 @
                     [(mem_email m, MemberAddedMessage org (clientUrl @ ''/org/'' @ org_id org))]\<rparr>
              else ?st1"
  have "list_all (\<lambda>m. accounts ?st2 (mem_id m) \<noteq> None) ms"
    using Cons.prems by (auto simp: list_all_iff)
  then have "fst (linkAdded clientUrl account org ms ?st2) = Inr ()" by (rule Cons.IH)
  with a show ?case by (simp add: Let_def)
qed

lemma overQuota_quota: "org_quota a = org_quota b \<Longrightarrow> overQuota a ms gs = overQuota b ms gs"
  by (simp add: overQuota_def)


text \<open>
  The second half of \<open>updateOrg\<close> in one equation: what it returns and the state it
  leaves, by the results \<open>r2\<close>, \<open>r3\<close> and \<open>r4\<close> of its three failing loops.
\<close>

lemma assignOrg_fields:
  "org_id (assignOrg owner org upd) = org_id org"
  "org_quota (assignOrg owner org upd) = org_quota org"
  "org_owner (assignOrg owner org upd) = org_owner org"
  "org_members (assignOrg owner org upd) = org_members upd"
  "org_groups (assignOrg owner org upd) = org_groups upd"
  "org_vaults (assignOrg owner org upd) = org_vaults upd"
  by (simp_all add: assignOrg_def Let_def)

lemma applyOrgUpdate_steps:
  obtains v ob d f g h ob' r2 r3 r4 where
    "drawn st \<le> d"
    "applyOrgUpdate clientUrl account owner org upd st =
       (case r2 of
          Inl e \<Rightarrow> (Inl e, st\<lparr>verifications := v, outbox := ob, drawn := d, accounts := f\<rparr>)
        | Inr u \<Rightarrow>
            (case r3 of
               Inl e \<Rightarrow>
                 (Inl e, st\<lparr>verifications := v, outbox := ob, drawn := d, accounts := f,
                           vaults := g\<rparr>)
             | Inr u \<Rightarrow>
                 if overQuota org (org_members upd) (org_groups upd)
                 then (Inl (Err QUOTA_EXCEEDED),
                       st\<lparr>verifications := v, outbox := ob, drawn := d, accounts := f,
                          vaults := g\<rparr>)
                 else
                   (case r4 of
                      Inl e \<Rightarrow>
                        (Inl e, st\<lparr>verifications := v, outbox := ob', drawn := d, accounts := h,
                                  vaults := g\<rparr>)
                    | Inr u \<Rightarrow>
                        (Inr ((assignOrg owner org upd)\<lparr>org_revision := entropy st d\<rparr>),
                         st\<lparr>verifications := v, outbox := ob', drawn := Suc d, accounts := h,
                            vaults := g,
                            orgs := (orgs st)(org_id org \<mapsto>
                              (assignOrg owner org upd)\<lparr>org_revision := entropy st d\<rparr>)\<rparr>))))"
    "list_all (\<lambda>m. accounts st (mem_id m) \<noteq> None) (org_members org) \<Longrightarrow> r2 = Inr ()"
    "list_all (\<lambda>v. vaults st (fst v) \<noteq> None) (org_vaults org) \<Longrightarrow> r3 = Inr ()"
    "list_all (\<lambda>m. accounts st (mem_id m) \<noteq> None) (org_members upd) \<Longrightarrow> r4 = Inr ()"
proof -
  let ?st1 = "sendInvites clientUrl org (addedInvites org (org_invites upd)) st"
  let ?rem = "removedMembers org (org_members upd)"
  let ?add = "addedMembers org (org_members upd)"
  let ?org2 = "assignOrg owner org upd"
  obtain v ob d where st1: "?st1 = st\<lparr>verifications := v, outbox := ob, drawn := d\<rparr>"
    and d: "drawn st \<le> d"
    using sendInvites_frame by blast
  obtain r2 st2 where u: "unlinkRemoved org ?rem ?st1 = (r2, st2)"
    by (cases "unlinkRemoved org ?rem ?st1")
  obtain f where "snd (unlinkRemoved org ?rem ?st1) = ?st1\<lparr>accounts := f\<rparr>"
    using unlinkRemoved_frame by blast
  with u have st2: "st2 = ?st1\<lparr>accounts := f\<rparr>" by simp
  obtain r3 st3 where rv: "renameVaults (org_vaults upd) (org_vaults org) st2 = (r3, st3)"
    by (cases "renameVaults (org_vaults upd) (org_vaults org) st2")
  obtain g where "snd (renameVaults (org_vaults upd) (org_vaults org) st2) = st2\<lparr>vaults := g\<rparr>"
    using renameVaults_frame by blast
  with rv have st3: "st3 = st2\<lparr>vaults := g\<rparr>" by simp
  obtain r4 st4 where la: "linkAdded clientUrl account ?org2 ?add st3 = (r4, st4)"
    by (cases "linkAdded clientUrl account ?org2 ?add st3")
  obtain h ob' where "snd (linkAdded clientUrl account ?org2 ?add st3)
      = st3\<lparr>accounts := h, outbox := ob'\<rparr>"
    using linkAdded_frame by blast
  with la have st4: "st4 = st3\<lparr>accounts := h, outbox := ob'\<rparr>" by simp
  have q: "overQuota ?org2 (org_members upd) (org_groups upd)
      = overQuota org (org_members upd) (org_groups upd)"
    by (rule overQuota_quota) (simp add: assignOrg_fields)
  have eq: "applyOrgUpdate clientUrl account owner org upd st =
       (case r2 of
          Inl e \<Rightarrow> (Inl e, st\<lparr>verifications := v, outbox := ob, drawn := d, accounts := f\<rparr>)
        | Inr u \<Rightarrow>
            (case r3 of
               Inl e \<Rightarrow>
                 (Inl e, st\<lparr>verifications := v, outbox := ob, drawn := d, accounts := f,
                           vaults := g\<rparr>)
             | Inr u \<Rightarrow>
                 if overQuota org (org_members upd) (org_groups upd)
                 then (Inl (Err QUOTA_EXCEEDED),
                       st\<lparr>verifications := v, outbox := ob, drawn := d, accounts := f,
                          vaults := g\<rparr>)
                 else
                   (case r4 of
                      Inl e \<Rightarrow>
                        (Inl e, st\<lparr>verifications := v, outbox := ob', drawn := d, accounts := h,
                                  vaults := g\<rparr>)
                    | Inr u \<Rightarrow>
                        (Inr ((assignOrg owner org upd)\<lparr>org_revision := entropy st d\<rparr>),
                         st\<lparr>verifications := v, outbox := ob', drawn := Suc d, accounts := h,
                            vaults := g,
                            orgs := (orgs st)(org_id org \<mapsto>
                              (assignOrg owner org upd)\<lparr>org_revision := entropy st d\<rparr>)\<rparr>))))"
    unfolding applyOrgUpdate_def Let_def u rv la q prod.case
    by (simp add: st1 st2 st3 st4 uuid_def assignOrg_fields split: sum.splits)
  have ok2: "r2 = Inr ()" if a: "list_all (\<lambda>m. accounts st (mem_id m) \<noteq> None) (org_members org)"
  proof -
    have "list_all (\<lambda>m. accounts ?st1 (mem_id m) \<noteq> None) ?rem"
      using a by (auto simp: st1 removedMembers_def list_all_iff)
    then have "fst (unlinkRemoved org ?rem ?st1) = Inr ()" by (rule unlinkRemoved_ok)
    with u show ?thesis by simp
  qed
  have ok3: "r3 = Inr ()" if a: "list_all (\<lambda>v. vaults st (fst v) \<noteq> None) (org_vaults org)"
  proof -
    have "list_all (\<lambda>v. vaults st2 (fst v) \<noteq> None) (org_vaults org)"
      using a by (simp add: st2 st1)
    then have "fst (renameVaults (org_vaults upd) (org_vaults org) st2) = Inr ()"
      by (rule renameVaults_ok)
    with rv show ?thesis by simp
  qed
  have ok4: "r4 = Inr ()" if a: "list_all (\<lambda>m. accounts st (mem_id m) \<noteq> None) (org_members upd)"
  proof -
    have "accounts st2 x \<noteq> None" if "accounts st x \<noteq> None" for x
    proof -
      from that have "accounts ?st1 x \<noteq> None" by (simp add: st1)
      then have "accounts (snd (unlinkRemoved org ?rem ?st1)) x \<noteq> None"
        by (rule unlinkRemoved_accounts)
      with u show ?thesis by simp
    qed
    then have "list_all (\<lambda>m. accounts st3 (mem_id m) \<noteq> None) ?add"
      using a by (auto simp: st3 addedMembers_def list_all_iff)
    then have "fst (linkAdded clientUrl account ?org2 ?add st3) = Inr ()" by (rule linkAdded_ok)
    with la show ?thesis by simp
  qed
  show thesis
    using that [OF d eq ok2 ok3 ok4] by blast
qed

subsection \<open>updateOrg: the quota\<close>

lemma updateOrg_unchanged_or_applied:
  assumes "requireAuth ctx = Inr (account, session)" "orgs st (org_id upd) = Some org"
  shows "(\<exists>e. updateOrg clientUrl ctx upd st = (Inl e, st))
     \<or> (org_revision upd = org_revision org
         \<and> (org_owner org = acc_id account \<or> isOwner org (acc_id account)
              \<or> (isAdmin org (acc_id account) \<and> \<not> membershipChanged org upd))
         \<and> updateOrg clientUrl ctx upd st
             = applyOrgUpdate clientUrl account
                 (org_owner org = acc_id account \<or> isOwner org (acc_id account)) org upd st)"
  using assms diff_test_iff [of org upd] by (auto simp: updateOrg_def Let_def)

lemma applyOrgUpdate_failed:
  "fst (applyOrgUpdate clientUrl account owner org upd st) = Inl e \<Longrightarrow>
   orgs (snd (applyOrgUpdate clientUrl account owner org upd st)) = orgs st
   \<and> auths (snd (applyOrgUpdate clientUrl account owner org upd st)) = auths st
   \<and> sessions (snd (applyOrgUpdate clientUrl account owner org upd st)) = sessions st"
  by (rule applyOrgUpdate_steps [of st clientUrl account owner org upd])
     (auto split: sum.splits if_splits)

lemma applyOrgUpdate_over_quota:
  "overQuota org (org_members upd) (org_groups upd) \<Longrightarrow>
   \<exists>e. fst (applyOrgUpdate clientUrl account owner org upd st) = Inl e"
  by (rule applyOrgUpdate_steps [of st clientUrl account owner org upd])
     (auto split: sum.splits if_splits)

lemma applyOrgUpdate_quota_exceeded:
  "overQuota org (org_members upd) (org_groups upd) \<Longrightarrow>
   list_all (\<lambda>m. accounts st (mem_id m) \<noteq> None) (org_members org) \<Longrightarrow>
   list_all (\<lambda>v. vaults st (fst v) \<noteq> None) (org_vaults org) \<Longrightarrow>
   fst (applyOrgUpdate clientUrl account owner org upd st) = Inl (Err QUOTA_EXCEEDED)"
  by (rule applyOrgUpdate_steps [of st clientUrl account owner org upd]) simp



lemma updateOrg_over_quota_fails:
  assumes a: "requireAuth ctx = Inr (account, session)" "orgs st (org_id upd) = Some org"
    and q: "overQuota org (org_members upd) (org_groups upd)"
  shows "(\<exists>e. fst (updateOrg clientUrl ctx upd st) = Inl e)
     \<and> orgs (snd (updateOrg clientUrl ctx upd st)) = orgs st"
proof -
  let ?owner = "org_owner org = acc_id account \<or> isOwner org (acc_id account)"
  let ?A = "applyOrgUpdate clientUrl account ?owner org upd st"
  from updateOrg_unchanged_or_applied [OF a, of clientUrl]
  consider (early) e where "updateOrg clientUrl ctx upd st = (Inl e, st)"
    | (applied) "updateOrg clientUrl ctx upd st = ?A"
    by blast
  then show ?thesis
  proof cases
    case early
    then show ?thesis by simp
  next
    case applied
    obtain e where e: "fst ?A = Inl e"
      using applyOrgUpdate_over_quota [OF q] by blast
    from applyOrgUpdate_failed [OF e] e applied show ?thesis by simp
  qed
qed

text \<open>
  What the three loops before the quota test leave in the storage. The loop over the
  added invites stores a fresh verification record for every invited address without
  Auth record; the loop over the removed members stores the account of every removed
  member without the organization; the loop over the vault entries stores every vault
  whose entry has a new name under that name.
\<close>

lemma sendInvites_kept:
  "d0 \<le> drawn st \<Longrightarrow>
   \<exists>v n. verifications st k = Some v \<and> ev_email v = k \<and> ev_tries v = 0
      \<and> d0 \<le> n \<and> ev_token v = entropy st n \<Longrightarrow>
   \<exists>v n. verifications (sendInvites clientUrl org invites st) k = Some v \<and> ev_email v = k
      \<and> ev_tries v = 0 \<and> d0 \<le> n \<and> ev_token v = entropy st n"
proof (induction invites arbitrary: st)
  case Nil
  then show ?case by simp
next
  case (Cons i invites)
  show ?case
  proof (cases "auths st (inv_email i)")
    case (Some a)
    let ?st1 = "st\<lparr>outbox := outbox st @ [(inv_email i, InviteCreatedMessage i
        (clientUrl @ ''/invite/'' @ org_id org @ ''/'' @ inv_id i))]\<rparr>"
    have "\<exists>v n. verifications (sendInvites clientUrl org invites ?st1) k = Some v \<and> ev_email v = k
      \<and> ev_tries v = 0 \<and> d0 \<le> n \<and> ev_token v = entropy ?st1 n"
      using Cons.prems by (intro Cons.IH) simp_all
    with Some show ?thesis by (simp add: Let_def)
  next
    case None
    obtain st1 where st1: "sendInvites clientUrl org (i # invites) st
        = sendInvites clientUrl org invites st1"
      and v1: "verifications st1 = (verifications st)(inv_email i \<mapsto>
          \<lparr>ev_email = inv_email i, ev_purpose = [], ev_code = entropy st (drawn st),
           ev_token = entropy st (Suc (drawn st)), ev_tries = 0\<rparr>)"
      and e1: "entropy st1 = entropy st" and d1: "drawn st1 = Suc (Suc (drawn st))"
      using None by (simp add: Let_def new_EmailVerification_def uuid_def)
    have "\<exists>v n. verifications st1 k = Some v \<and> ev_email v = k \<and> ev_tries v = 0
      \<and> d0 \<le> n \<and> ev_token v = entropy st1 n"
    proof (cases "k = inv_email i")
      case True
      have "d0 \<le> Suc (drawn st)" using Cons.prems(1) by simp
      then show ?thesis using True v1 e1 by auto
    next
      case False
      then show ?thesis using Cons.prems(2) v1 e1 by simp
    qed
    moreover have "d0 \<le> drawn st1" using Cons.prems(1) d1 by simp
    ultimately have "\<exists>v n. verifications (sendInvites clientUrl org invites st1) k = Some v
      \<and> ev_email v = k \<and> ev_tries v = 0 \<and> d0 \<le> n \<and> ev_token v = entropy st1 n"
      by (rule Cons.IH [rotated])
    then show ?thesis unfolding st1 by (simp add: e1)
  qed
qed

lemma sendInvites_verification:
  "d0 \<le> drawn st \<Longrightarrow> i \<in> set invites \<Longrightarrow> auths st (inv_email i) = None \<Longrightarrow>
   \<exists>v n. verifications (sendInvites clientUrl org invites st) (inv_email i) = Some v
      \<and> ev_email v = inv_email i \<and> ev_tries v = 0 \<and> d0 \<le> n \<and> ev_token v = entropy st n"
proof (induction invites arbitrary: st)
  case Nil
  then show ?case by simp
next
  case (Cons j invites)
  show ?case
  proof (cases "auths st (inv_email j)")
    case (Some a)
    let ?st1 = "st\<lparr>outbox := outbox st @ [(inv_email j, InviteCreatedMessage j
        (clientUrl @ ''/invite/'' @ org_id org @ ''/'' @ inv_id j))]\<rparr>"
    from Some Cons.prems(2,3) have "i \<in> set invites" by auto
    then have "\<exists>v n. verifications (sendInvites clientUrl org invites ?st1) (inv_email i) = Some v
      \<and> ev_email v = inv_email i \<and> ev_tries v = 0 \<and> d0 \<le> n \<and> ev_token v = entropy ?st1 n"
      using Cons.prems by (intro Cons.IH) simp_all
    with Some show ?thesis by (simp add: Let_def)
  next
    case None
    obtain st1 where st1: "sendInvites clientUrl org (j # invites) st
        = sendInvites clientUrl org invites st1"
      and v1: "verifications st1 = (verifications st)(inv_email j \<mapsto>
          \<lparr>ev_email = inv_email j, ev_purpose = [], ev_code = entropy st (drawn st),
           ev_token = entropy st (Suc (drawn st)), ev_tries = 0\<rparr>)"
      and e1: "entropy st1 = entropy st" and d1: "drawn st1 = Suc (Suc (drawn st))"
      and a1: "auths st1 = auths st"
      using None by (simp add: Let_def new_EmailVerification_def uuid_def)
    have d: "d0 \<le> drawn st1" using Cons.prems(1) d1 by simp
    have "\<exists>v n. verifications (sendInvites clientUrl org invites st1) (inv_email i) = Some v
      \<and> ev_email v = inv_email i \<and> ev_tries v = 0 \<and> d0 \<le> n \<and> ev_token v = entropy st1 n"
    proof (cases "inv_email i = inv_email j")
      case True
      have "d0 \<le> Suc (drawn st)" using Cons.prems(1) by simp
      then have "\<exists>v n. verifications st1 (inv_email i) = Some v \<and> ev_email v = inv_email i
        \<and> ev_tries v = 0 \<and> d0 \<le> n \<and> ev_token v = entropy st1 n"
        using True v1 e1 by auto
      with d show ?thesis by (rule sendInvites_kept)
    next
      case False
      with Cons.prems(2) have "i \<in> set invites" by auto
      with d show ?thesis using Cons.prems(3) a1 by (intro Cons.IH) simp_all
    qed
    then show ?thesis unfolding st1 by (simp add: e1)
  qed
qed

lemma unlinkRemoved_kept:
  "fst (unlinkRemoved org ms st) = Inr () \<Longrightarrow>
   \<exists>a. accounts st k = Some a \<and> org_id org \<notin> set (acc_orgs a) \<Longrightarrow>
   \<exists>a. accounts (snd (unlinkRemoved org ms st)) k = Some a \<and> org_id org \<notin> set (acc_orgs a)"
proof (induction ms arbitrary: st)
  case Nil
  then show ?case by simp
next
  case (Cons m ms)
  from Cons.prems(1) obtain acc0 where a: "accounts st (mem_id m) = Some acc0"
    by (cases "accounts st (mem_id m)") auto
  let ?acc = "acc0\<lparr>acc_orgs := filter (\<lambda>oid. oid \<noteq> org_id org) (acc_orgs acc0)\<rparr>"
  let ?st1 = "st\<lparr>accounts := (accounts st)(acc_id acc0 \<mapsto> ?acc)\<rparr>"
  have step: "unlinkRemoved org (m # ms) st = unlinkRemoved org ms ?st1"
    using a by (simp add: Let_def)
  have "\<exists>a. accounts ?st1 k = Some a \<and> org_id org \<notin> set (acc_orgs a)"
    using Cons.prems(2) by auto
  moreover have "fst (unlinkRemoved org ms ?st1) = Inr ()"
    using Cons.prems(1) step by simp
  ultimately show ?case unfolding step by (rule Cons.IH [rotated])
qed

lemma unlinkRemoved_unlinked:
  "keyedAccounts st \<Longrightarrow> fst (unlinkRemoved org ms st) = Inr () \<Longrightarrow> m \<in> set ms \<Longrightarrow>
   \<exists>a. accounts (snd (unlinkRemoved org ms st)) (mem_id m) = Some a
      \<and> org_id org \<notin> set (acc_orgs a)"
proof (induction ms arbitrary: st)
  case Nil
  then show ?case by simp
next
  case (Cons m' ms)
  from Cons.prems(2) obtain acc0 where a: "accounts st (mem_id m') = Some acc0"
    by (cases "accounts st (mem_id m')") auto
  with Cons.prems(1) have k: "acc_id acc0 = mem_id m'" by (simp add: keyedAccounts_def)
  let ?acc = "acc0\<lparr>acc_orgs := filter (\<lambda>oid. oid \<noteq> org_id org) (acc_orgs acc0)\<rparr>"
  let ?st1 = "st\<lparr>accounts := (accounts st)(acc_id acc0 \<mapsto> ?acc)\<rparr>"
  have step: "unlinkRemoved org (m' # ms) st = unlinkRemoved org ms ?st1"
    using a by (simp add: Let_def)
  have ok: "fst (unlinkRemoved org ms ?st1) = Inr ()"
    using Cons.prems(2) step by simp
  have k1: "keyedAccounts ?st1"
    using Cons.prems(1) by (auto simp: keyedAccounts_def)
  show ?case
  proof (cases "mem_id m = mem_id m'")
    case True
    have "\<exists>a. accounts ?st1 (mem_id m) = Some a \<and> org_id org \<notin> set (acc_orgs a)"
      using True k by auto
    with ok show ?thesis unfolding step by (rule unlinkRemoved_kept)
  next
    case False
    with Cons.prems(3) have "m \<in> set ms" by auto
    with k1 ok show ?thesis unfolding step by (rule Cons.IH)
  qed
qed

lemma renameVaults_kept:
  "keyedVaults st \<Longrightarrow> fst (renameVaults newVaults entries st) = Inr () \<Longrightarrow>
   find (\<lambda>v. fst v = vid) newVaults = Some e \<Longrightarrow>
   \<exists>v. vaults st vid = Some v \<and> vlt_name v = snd e \<Longrightarrow>
   \<exists>v. vaults (snd (renameVaults newVaults entries st)) vid = Some v \<and> vlt_name v = snd e"
proof (induction entries arbitrary: st)
  case Nil
  then show ?case by simp
next
  case (Cons entry entries)
  obtain vid' name where en: "entry = (vid', name)" by (cases entry)
  show ?case
  proof (cases "find (\<lambda>v. fst v = vid') newVaults")
    case None
    with en Cons.prems show ?thesis using Cons.IH [of st] by simp
  next
    case (Some e')
    show ?thesis
    proof (cases "snd e' = name")
      case True
      with en Some Cons.prems show ?thesis using Cons.IH [of st] by simp
    next
      case False
      from Cons.prems(2) en Some False obtain vault0 where v0: "vaults st vid' = Some vault0"
        by (cases "vaults st vid'") auto
      with Cons.prems(1) have k: "vlt_id vault0 = vid'" by (simp add: keyedVaults_def)
      let ?st1 = "st\<lparr>vaults := (vaults st)(vlt_id vault0 \<mapsto> vault0\<lparr>vlt_name := snd e'\<rparr>)\<rparr>"
      have step: "renameVaults newVaults (entry # entries) st = renameVaults newVaults entries ?st1"
        using en Some False v0 by (simp add: Let_def)
      have k1: "keyedVaults ?st1" using Cons.prems(1) by (auto simp: keyedVaults_def)
      have ok: "fst (renameVaults newVaults entries ?st1) = Inr ()"
        using Cons.prems(2) step by simp
      have "\<exists>v. vaults ?st1 vid = Some v \<and> vlt_name v = snd e"
      proof (cases "vid = vid'")
        case True
        with Some Cons.prems(3) have "e' = e" by simp
        with True k show ?thesis by simp
      next
        case False
        with k Cons.prems(4) show ?thesis by simp
      qed
      with k1 ok Cons.prems(3) show ?thesis unfolding step by (rule Cons.IH)
    qed
  qed
qed

lemma renameVaults_renamed:
  "keyedVaults st \<Longrightarrow> fst (renameVaults newVaults entries st) = Inr () \<Longrightarrow>
   (vid, name) \<in> set entries \<Longrightarrow> find (\<lambda>v. fst v = vid) newVaults = Some e \<Longrightarrow>
   snd e \<noteq> name \<Longrightarrow>
   \<exists>v. vaults (snd (renameVaults newVaults entries st)) vid = Some v \<and> vlt_name v = snd e"
proof (induction entries arbitrary: st)
  case Nil
  then show ?case by simp
next
  case (Cons entry entries)
  obtain vid' name' where en: "entry = (vid', name')" by (cases entry)
  show ?case
  proof (cases "entry = (vid, name)")
    case True
    from Cons.prems(2,4,5) True obtain vault0 where v0: "vaults st vid = Some vault0"
      by (cases "vaults st vid") auto
    with Cons.prems(1) have k: "vlt_id vault0 = vid" by (simp add: keyedVaults_def)
    let ?st1 = "st\<lparr>vaults := (vaults st)(vlt_id vault0 \<mapsto> vault0\<lparr>vlt_name := snd e\<rparr>)\<rparr>"
    have step: "renameVaults newVaults (entry # entries) st = renameVaults newVaults entries ?st1"
      using True Cons.prems(4,5) v0 by (simp add: Let_def)
    have k1: "keyedVaults ?st1" using Cons.prems(1) by (auto simp: keyedVaults_def)
    have ok: "fst (renameVaults newVaults entries ?st1) = Inr ()"
      using Cons.prems(2) step by simp
    have "\<exists>v. vaults ?st1 vid = Some v \<and> vlt_name v = snd e" using k by simp
    with k1 ok Cons.prems(4) show ?thesis unfolding step by (rule renameVaults_kept)
  next
    case False
    with Cons.prems(3) have mem: "(vid, name) \<in> set entries" by auto
    show ?thesis
    proof (cases "find (\<lambda>v. fst v = vid') newVaults")
      case None
      with en Cons.prems mem show ?thesis using Cons.IH [of st] by simp
    next
      case (Some e')
      show ?thesis
      proof (cases "snd e' = name'")
        case True
        with en Some Cons.prems mem show ?thesis using Cons.IH [of st] by simp
      next
        case ne: False
        from Cons.prems(2) en Some ne obtain vault0 where v0: "vaults st vid' = Some vault0"
          by (cases "vaults st vid'") auto
        let ?st1 = "st\<lparr>vaults := (vaults st)(vlt_id vault0 \<mapsto> vault0\<lparr>vlt_name := snd e'\<rparr>)\<rparr>"
        have step: "renameVaults newVaults (entry # entries) st
            = renameVaults newVaults entries ?st1"
          using en Some ne v0 by (simp add: Let_def)
        have k1: "keyedVaults ?st1" using Cons.prems(1) by (auto simp: keyedVaults_def)
        have ok: "fst (renameVaults newVaults entries ?st1) = Inr ()"
          using Cons.prems(2) step by simp
        from k1 ok mem Cons.prems(4,5) show ?thesis unfolding step by (rule Cons.IH)
      qed
    qed
  qed
qed


lemma applyOrgUpdate_quota_state:
  assumes q: "overQuota org (org_members upd) (org_groups upd)"
    and ma: "list_all (\<lambda>m. accounts st (mem_id m) \<noteq> None) (org_members org)"
    and va: "list_all (\<lambda>v. vaults st (fst v) \<noteq> None) (org_vaults org)"
  shows "fst (unlinkRemoved org (removedMembers org (org_members upd))
                (sendInvites clientUrl org (addedInvites org (org_invites upd)) st)) = Inr ()"
    and "fst (renameVaults (org_vaults upd) (org_vaults org)
                (snd (unlinkRemoved org (removedMembers org (org_members upd))
                   (sendInvites clientUrl org (addedInvites org (org_invites upd)) st)))) = Inr ()"
    and "applyOrgUpdate clientUrl account owner org upd st
           = (Inl (Err QUOTA_EXCEEDED),
              snd (renameVaults (org_vaults upd) (org_vaults org)
                (snd (unlinkRemoved org (removedMembers org (org_members upd))
                   (sendInvites clientUrl org (addedInvites org (org_invites upd)) st)))))"
proof -
  let ?st1 = "sendInvites clientUrl org (addedInvites org (org_invites upd)) st"
  let ?rem = "removedMembers org (org_members upd)"
  let ?st2 = "snd (unlinkRemoved org ?rem ?st1)"
  let ?st3 = "snd (renameVaults (org_vaults upd) (org_vaults org) ?st2)"
  obtain v ob d where st1: "?st1 = st\<lparr>verifications := v, outbox := ob, drawn := d\<rparr>"
    using sendInvites_frame by blast
  obtain f where st2: "?st2 = ?st1\<lparr>accounts := f\<rparr>"
    using unlinkRemoved_frame by blast
  have "list_all (\<lambda>m. accounts ?st1 (mem_id m) \<noteq> None) ?rem"
    using ma by (auto simp: st1 removedMembers_def list_all_iff)
  then show ok2: "fst (unlinkRemoved org ?rem ?st1) = Inr ()" by (rule unlinkRemoved_ok)
  have "vaults ?st2 = vaults ?st1" by (simp add: st2)
  moreover have "vaults ?st1 = vaults st" by (simp add: st1)
  ultimately have "list_all (\<lambda>v. vaults ?st2 (fst v) \<noteq> None) (org_vaults org)"
    using va by simp
  then show ok3: "fst (renameVaults (org_vaults upd) (org_vaults org) ?st2) = Inr ()"
    by (rule renameVaults_ok)
  have q2: "overQuota (assignOrg owner org upd) (org_members upd) (org_groups upd)"
    using q overQuota_quota [of "assignOrg owner org upd" org] by (simp add: assignOrg_fields)
  obtain st2 where u: "unlinkRemoved org ?rem ?st1 = (Inr (), st2)"
    using ok2 by (cases "unlinkRemoved org ?rem ?st1") auto
  obtain st3 where rv: "renameVaults (org_vaults upd) (org_vaults org) st2 = (Inr (), st3)"
    using ok3 u by (cases "renameVaults (org_vaults upd) (org_vaults org) st2") auto
  show "applyOrgUpdate clientUrl account owner org upd st = (Inl (Err QUOTA_EXCEEDED), ?st3)"
    by (simp add: applyOrgUpdate_def Let_def u rv q2)
qed

text \<open>
  Claim C7 (a defect of the code). The claim asks that an \<open>updateOrg\<close> call over the
  quota fails \<open>QUOTA_EXCEEDED\<close> and changes no stored state: not the organization, not
  the accounts of the removed members, not the renamed vaults, not a verification record
  for an added invite. What the code does instead, because the quota test of line 496
  comes after the three loops of lines 436 to 473 and the storage has no rollback: for
  a call that passes the revision and permission checks, on a storage that holds the
  accounts of the stored members and the vaults of the stored vault entries under their
  ids, the call fails \<open>QUOTA_EXCEEDED\<close> and leaves the stored organizations as they
  were, and yet after the failed call a verification record drawn in this call is stored
  for every added invite whose address has no Auth record, the stored account of every
  removed member no longer lists the organization, and every vault whose entry was
  renamed is stored under its new name.
\<close>

theorem updateOrg_over_quota_keeps_writes:
  "requireAuth ctx = Inr (account, session) \<and> orgs st (org_id upd) = Some org
   \<and> org_revision upd = org_revision org
   \<and> (org_owner org = acc_id account \<or> isOwner org (acc_id account)
        \<or> (isAdmin org (acc_id account) \<and> \<not> membershipChanged org upd))
   \<and> overQuota org (org_members upd) (org_groups upd)
   \<and> list_all (\<lambda>m. accounts st (mem_id m) \<noteq> None) (org_members org)
   \<and> list_all (\<lambda>v. vaults st (fst v) \<noteq> None) (org_vaults org)
   \<and> keyedAccounts st \<and> keyedVaults st
   \<longrightarrow> fst (updateOrg clientUrl ctx upd st) = Inl (Err QUOTA_EXCEEDED)
     \<and> orgs (snd (updateOrg clientUrl ctx upd st)) = orgs st
     \<and> list_all
          (\<lambda>i. auths st (inv_email i) = None \<longrightarrow>
             (\<exists>v n. verifications (snd (updateOrg clientUrl ctx upd st)) (inv_email i) = Some v
                \<and> ev_email v = inv_email i \<and> ev_tries v = 0
                \<and> drawn st \<le> n \<and> ev_token v = entropy st n))
          (addedInvites org (org_invites upd))
     \<and> list_all
          (\<lambda>m. \<exists>a. accounts (snd (updateOrg clientUrl ctx upd st)) (mem_id m) = Some a
                \<and> org_id org \<notin> set (acc_orgs a))
          (removedMembers org (org_members upd))
     \<and> list_all
          (\<lambda>entry. \<forall>e. find (\<lambda>v. fst v = fst entry) (org_vaults upd) = Some e
                \<and> snd e \<noteq> snd entry \<longrightarrow>
             (\<exists>v. vaults (snd (updateOrg clientUrl ctx upd st)) (fst entry) = Some v
                \<and> vlt_name v = snd e))
          (org_vaults org)"
proof (intro impI, elim conjE)
  let ?U = "updateOrg clientUrl ctx upd st"
  let ?inv = "addedInvites org (org_invites upd)"
  let ?rem = "removedMembers org (org_members upd)"
  let ?st1 = "sendInvites clientUrl org ?inv st"
  let ?st2 = "snd (unlinkRemoved org ?rem ?st1)"
  let ?st3 = "snd (renameVaults (org_vaults upd) (org_vaults org) ?st2)"
  assume a: "requireAuth ctx = Inr (account, session)" "orgs st (org_id upd) = Some org"
    and r: "org_revision upd = org_revision org"
    and p: "org_owner org = acc_id account \<or> isOwner org (acc_id account)
        \<or> (isAdmin org (acc_id account) \<and> \<not> membershipChanged org upd)"
    and q: "overQuota org (org_members upd) (org_groups upd)"
    and ma: "list_all (\<lambda>m. accounts st (mem_id m) \<noteq> None) (org_members org)"
    and va: "list_all (\<lambda>v. vaults st (fst v) \<noteq> None) (org_vaults org)"
    and ka: "keyedAccounts st" and kv: "keyedVaults st"
  let ?owner = "org_owner org = acc_id account \<or> isOwner org (acc_id account)"
  have "?U = applyOrgUpdate clientUrl account ?owner org upd st"
    using a r p by (rule updateOrg_passes)
  with applyOrgUpdate_quota_state(3) [OF q ma va]
  have U: "?U = (Inl (Err QUOTA_EXCEEDED), ?st3)" by simp
  note ok2 = applyOrgUpdate_quota_state(1) [OF q ma va, of clientUrl]
  note ok3 = applyOrgUpdate_quota_state(2) [OF q ma va, of clientUrl]
  obtain v ob d where st1: "?st1 = st\<lparr>verifications := v, outbox := ob, drawn := d\<rparr>"
    using sendInvites_frame by blast
  obtain f where st2: "?st2 = ?st1\<lparr>accounts := f\<rparr>"
    using unlinkRemoved_frame by blast
  obtain g where st3: "?st3 = ?st2\<lparr>vaults := g\<rparr>"
    using renameVaults_frame by blast
  have f3: "orgs ?st3 = orgs ?st2" "accounts ?st3 = accounts ?st2"
      "verifications ?st3 = verifications ?st2"
    by (simp_all add: st3)
  have f2: "orgs ?st2 = orgs ?st1" "vaults ?st2 = vaults ?st1"
      "verifications ?st2 = verifications ?st1"
    by (simp_all add: st2)
  have f1: "orgs ?st1 = orgs st" "vaults ?st1 = vaults st" "accounts ?st1 = accounts st"
    by (simp_all add: st1)
  have res: "fst ?U = Inl (Err QUOTA_EXCEEDED)" using U by simp
  have og: "orgs (snd ?U) = orgs st" using U f3(1) f2(1) f1(1) by simp
  have ver: "verifications (snd ?U) = verifications ?st1" using U f3(3) f2(3) by simp
  have acc: "accounts (snd ?U) = accounts ?st2" using U f3(2) by simp
  have vlt: "vaults (snd ?U) = vaults ?st3" using U by simp
  have k1: "keyedAccounts ?st1" using ka f1(3) by (simp add: keyedAccounts_def)
  have k2: "keyedVaults ?st2" using kv f2(2) f1(2) by (simp add: keyedVaults_def)
  have invites: "\<exists>v n. verifications (snd ?U) (inv_email i) = Some v
        \<and> ev_email v = inv_email i \<and> ev_tries v = 0 \<and> drawn st \<le> n \<and> ev_token v = entropy st n"
    if "i \<in> set ?inv" "auths st (inv_email i) = None" for i
    unfolding ver using that by (intro sendInvites_verification) simp_all
  have removed: "\<exists>a. accounts (snd ?U) (mem_id m) = Some a \<and> org_id org \<notin> set (acc_orgs a)"
    if "m \<in> set ?rem" for m
    unfolding acc using k1 ok2 that by (rule unlinkRemoved_unlinked)
  have renamed: "\<exists>v. vaults (snd ?U) (fst entry) = Some v \<and> vlt_name v = snd e"
    if "entry \<in> set (org_vaults org)"
      "find (\<lambda>v. fst v = fst entry) (org_vaults upd) = Some e" "snd e \<noteq> snd entry"
    for entry e
    unfolding vlt using k2 ok3 that
    by (intro renameVaults_renamed [of _ _ _ _ "snd entry"]) simp_all
  show "fst ?U = Inl (Err QUOTA_EXCEEDED)
     \<and> orgs (snd ?U) = orgs st
     \<and> list_all
          (\<lambda>i. auths st (inv_email i) = None \<longrightarrow>
             (\<exists>v n. verifications (snd ?U) (inv_email i) = Some v
                \<and> ev_email v = inv_email i \<and> ev_tries v = 0
                \<and> drawn st \<le> n \<and> ev_token v = entropy st n))
          ?inv
     \<and> list_all
          (\<lambda>m. \<exists>a. accounts (snd ?U) (mem_id m) = Some a \<and> org_id org \<notin> set (acc_orgs a))
          ?rem
     \<and> list_all
          (\<lambda>entry. \<forall>e. find (\<lambda>v. fst v = fst entry) (org_vaults upd) = Some e
                \<and> snd e \<noteq> snd entry \<longrightarrow>
             (\<exists>v. vaults (snd ?U) (fst entry) = Some v \<and> vlt_name v = snd e))
          (org_vaults org)"
    unfolding list_all_iff using res og invites removed renamed by blast
qed


text \<open>The definitions that evaluate the organization state.\<close>

lemmas example_defs =
  requireAuth_def signedIn_def orgState_def emptyState_def acme_def memberOf_def
  aliceOwner_def bobAccount_def carolAccount_def daveAccount_def aliceAccount_def
  isOwner_def isAdmin_def isMember_def getMember_def getInvite_def
  acmeVault_def aliceVault_def new_Vault_def exampleEntropy_def

lemma keyed_orgState: "keyedAccounts orgState" "keyedVaults orgState"
  by (simp_all add: keyedAccounts_def keyedVaults_def example_defs)

text \<open>
  The failing input: Alice, the owner, sends an update with two groups where the quota
  allows one, which also removes Carol, invites Erin and renames the shared vault. The
  call fails \<open>QUOTA_EXCEEDED\<close>, and the account of Carol has lost the organization, the
  shared vault has its new name and a verification record for Erin is stored.
\<close>

theorem updateOrg_over_quota_keeps_writes_witness:
  "fst (updateOrg ''https://example.com'' (signedIn aliceOwner) shrinkAcme orgState)
     = Inl (Err QUOTA_EXCEEDED)
   \<and> accounts orgState ''acc-carol'' = Some carolAccount
   \<and> acc_orgs carolAccount = [''org-acme'']
   \<and> accounts (snd (updateOrg ''https://example.com'' (signedIn aliceOwner) shrinkAcme orgState))
         ''acc-carol''
       = Some (carolAccount\<lparr>acc_orgs := []\<rparr>)
   \<and> vaults orgState ''vault-acme'' = Some acmeVault
   \<and> vlt_name acmeVault = ''Shared''
   \<and> vaults (snd (updateOrg ''https://example.com'' (signedIn aliceOwner) shrinkAcme orgState))
         ''vault-acme''
       = Some (acmeVault\<lparr>vlt_name := ''Renamed''\<rparr>)
   \<and> verifications orgState ''erin@example.com'' = None
   \<and> verifications
         (snd (updateOrg ''https://example.com'' (signedIn aliceOwner) shrinkAcme orgState))
         ''erin@example.com''
       = Some \<lparr>ev_email = ''erin@example.com'', ev_purpose = [], ev_code = ''u'',
               ev_token = ''uu'', ev_tries = 0\<rparr>"
proof -
  have h: "requireAuth (signedIn aliceOwner)
        = Inr (aliceOwner, new_Session\<lparr>ses_id := ''ses-1'', ses_account := ''acc-alice''\<rparr>)"
      "orgs orgState (org_id shrinkAcme) = Some acme"
      "org_revision shrinkAcme = org_revision acme"
      "org_owner acme = acc_id aliceOwner"
      "overQuota acme (org_members shrinkAcme) (org_groups shrinkAcme)"
      "list_all (\<lambda>m. accounts orgState (mem_id m) \<noteq> None) (org_members acme)"
      "list_all (\<lambda>v. vaults orgState (fst v) \<noteq> None) (org_vaults acme)"
    by (simp_all add: example_defs shrinkAcme_def overQuota_def)
  have e: "accounts orgState ''acc-carol'' = Some carolAccount"
      "acc_orgs carolAccount = [''org-acme'']"
      "accounts (snd (updateOrg ''https://example.com'' (signedIn aliceOwner) shrinkAcme orgState))
         ''acc-carol''
       = Some (carolAccount\<lparr>acc_orgs := []\<rparr>)"
      "vaults orgState ''vault-acme'' = Some acmeVault"
      "vlt_name acmeVault = ''Shared''"
      "vaults (snd (updateOrg ''https://example.com'' (signedIn aliceOwner) shrinkAcme orgState))
         ''vault-acme''
       = Some (acmeVault\<lparr>vlt_name := ''Renamed''\<rparr>)"
      "verifications orgState ''erin@example.com'' = None"
      "verifications
         (snd (updateOrg ''https://example.com'' (signedIn aliceOwner) shrinkAcme orgState))
         ''erin@example.com''
       = Some \<lparr>ev_email = ''erin@example.com'', ev_purpose = [], ev_code = ''u'',
               ev_token = ''uu'', ev_tries = 0\<rparr>"
    by (simp_all add: updateOrg_def applyOrgUpdate_def example_defs shrinkAcme_def erinInvite_def
        addedMembers_def removedMembers_def addedInvites_def roleChanged_def overQuota_def
        assignOrg_def new_EmailVerification_def uuid_def Let_def)
  from updateOrg_over_quota_keeps_writes
          [of "signedIn aliceOwner" aliceOwner
              "new_Session\<lparr>ses_id := ''ses-1'', ses_account := ''acc-alice''\<rparr>"
              orgState shrinkAcme acme "''https://example.com''"]
       h keyed_orgState
  have "fst (updateOrg ''https://example.com'' (signedIn aliceOwner) shrinkAcme orgState)
     = Inl (Err QUOTA_EXCEEDED)"
    by simp
  with e show ?thesis by simp
qed

subsection \<open>The revision guard\<close>





















subsection \<open>Account recovery\<close>




















end
